theory Spec2Isabelle
  imports Main "HOL-Library.Sublist"
begin

section \<open>Strings and JavaScript values\<close>

text \<open>
  A JavaScript string is a sequence of UTF-16 code units. It is modelled as a \<open>string\<close>
  whose characters stand for the code units \<open>0x00 .. 0xFF\<close>; \<open>length\<close>, \<open>take\<close> and
  \<open>drop\<close> count code units as \<open>.length\<close> and \<open>.slice\<close> do.
\<close>

abbreviation DQ :: char where
  "DQ \<equiv> CHR 0x22"

abbreviation LF :: char where
  "LF \<equiv> CHR 0x0A"

abbreviation CR :: char where
  "CR \<equiv> CHR 0x0D"

text \<open>
  The values a parsed JSON request body can hold, and \<open>undefined\<close> for an absent property.
  An object is the list of its own properties. A number \<open>n\<close> is kept as the two things this
  program reads of it: whether it is non-zero, and the text \<open>String(n)\<close> that the number
  formatting of the runtime gives.
\<close>

datatype jsval =
    Undefined
  | Null
  | JBool bool
  | JNum bool string
  | JStr string
  | JArr "jsval list"
  | JObj "(string \<times> jsval) list"

text \<open>Truthiness, as tested by \<open>!v\<close>, \<open>v || w\<close> and \<open>v ? a : b\<close>.\<close>

fun truthy :: "jsval \<Rightarrow> bool" where
  "truthy Undefined = False"
| "truthy Null = False"
| "truthy (JBool b) = b"
| "truthy (JNum nonzero text) = nonzero"
| "truthy (JStr s) = (s \<noteq> [])"
| "truthy (JArr xs) = True"
| "truthy (JObj kvs) = True"

text \<open>\<open>v ?? w\<close> takes \<open>w\<close> exactly when \<open>v\<close> is \<open>null\<close> or \<open>undefined\<close>.\<close>

fun nullish :: "jsval \<Rightarrow> bool" where
  "nullish Undefined = True"
| "nullish Null = True"
| "nullish v = False"

definition orElse :: "jsval \<Rightarrow> jsval \<Rightarrow> jsval" where
  "orElse v w = (if truthy v then v else w)"

definition coalesce :: "jsval \<Rightarrow> jsval \<Rightarrow> jsval" where
  "coalesce v w = (if nullish v then w else v)"

text \<open>
  Decimal rendering of a natural number, as a template literal prints \<open>Date.now()\<close> and an
  HTTP status.
\<close>

definition digitChar :: "nat \<Rightarrow> char" where
  "digitChar d = ''0123456789'' ! d"

function showNat :: "nat \<Rightarrow> string" where
  "showNat n = (if n < 10 then [digitChar n] else showNat (n div 10) @ [digitChar (n mod 10)])"
  by pat_completeness auto
termination
  by (relation "measure id") auto

declare showNat.simps [simp del]

fun joinWith :: "string \<Rightarrow> string list \<Rightarrow> string" where
  "joinWith sep [] = []"
| "joinWith sep [x] = x"
| "joinWith sep (x # y # ys) = x @ sep @ joinWith sep (y # ys)"

text \<open>An exception thrown inside a handler: by the program itself or by \<open>fetch\<close>.\<close>

datatype exn = TypeError | SyntaxError | FetchFailed string

text \<open>
  \<open>String(v)\<close>, which is also what a template literal \<open>${v}\<close> inserts, throws a \<open>TypeError\<close>
  on an object whose own property \<open>toString\<close> hides the inherited method (a JSON value is
  never callable, and \<open>valueOf\<close> gives back the object), and on an array that has such an
  element. \<open>printable v\<close> says that the conversion returns.
\<close>

fun printable :: "jsval \<Rightarrow> bool" where
  "printable (JArr xs) = (\<forall>x \<in> set xs. nullish x \<or> printable x)"
| "printable (JObj kvs) = (map_of kvs ''toString'' = None)"
| "printable v = True"

text \<open>
  The text of a value whose conversion returns. An array prints its elements separated by
  commas, a \<open>null\<close> or \<open>undefined\<close> element as nothing.
\<close>

fun render :: "jsval \<Rightarrow> string" where
  "render Undefined = ''undefined''"
| "render Null = ''null''"
| "render (JBool b) = (if b then ''true'' else ''false'')"
| "render (JNum nonzero text) = text"
| "render (JStr s) = s"
| "render (JArr xs) = joinWith '','' (map (\<lambda>x. if nullish x then [] else render x) xs)"
| "render (JObj kvs) = ''[object Object]''"

definition toStr :: "jsval \<Rightarrow> exn + string" where
  "toStr v = (if printable v then Inr (render v) else Inl TypeError)"

text \<open>
  A template literal with the inserted values \<open>vs\<close> and, when all of them convert, the text
  \<open>text\<close>: it throws as soon as one conversion does.
\<close>

definition template :: "jsval list \<Rightarrow> string \<Rightarrow> exn + string" where
  "template vs text = (if \<forall>v \<in> set vs. printable v then Inr text else Inl TypeError)"

text \<open>
  Reading a property \<open>v.k\<close>: a \<open>TypeError\<close> on \<open>null\<close> and \<open>undefined\<close> (\<open>None\<close> here),
  the property of an object, and \<open>undefined\<close> on every other value for the property names
  this program reads. \<open>v?.k\<close> gives \<open>undefined\<close> instead of the error.
\<close>

fun getProp :: "jsval \<Rightarrow> string \<Rightarrow> jsval option" where
  "getProp Undefined k = None"
| "getProp Null k = None"
| "getProp (JObj kvs) k = Some (case map_of kvs k of None \<Rightarrow> Undefined | Some v \<Rightarrow> v)"
| "getProp v k = Some Undefined"

definition optProp :: "jsval \<Rightarrow> string \<Rightarrow> jsval" where
  "optProp v k = (case getProp v k of None \<Rightarrow> Undefined | Some x \<Rightarrow> x)"

section \<open>CDATA wrapping\<close>

text \<open>
  \<open>s.replaceAll(pat, rep)\<close> with a string pattern: the occurrences of \<open>pat\<close> are found from
  left to right without overlap, each is replaced by \<open>rep\<close>. An empty pattern matches
  between all code units.
\<close>

function replaceAll :: "string \<Rightarrow> string \<Rightarrow> string \<Rightarrow> string" where
  "replaceAll pat rep [] = (if pat = [] then rep else [])"
| "replaceAll pat rep (c # cs) =
     (if pat = [] then rep @ c # replaceAll pat rep cs
      else if prefix pat (c # cs) then rep @ replaceAll pat rep (drop (length pat) (c # cs))
      else c # replaceAll pat rep cs)"
  by pat_completeness auto
termination
  by (relation "measure (\<lambda>(pat, rep, s). length s)") auto

text \<open>
  \<open>cdataWrap(value)\<close>: \<open>String(value ?? '')\<close>, which may throw, then every \<open>]]>\<close> split over
  two sections and the whole enclosed in one section (\<open>cdataText\<close>).
\<close>

definition cdataSafe :: "string \<Rightarrow> string" where
  "cdataSafe s = replaceAll '']]>'' '']]]]><![CDATA[>'' s"

definition cdataText :: "string \<Rightarrow> string" where
  "cdataText s = ''<![CDATA['' @ cdataSafe s @ '']]>''"

definition cdataWrap :: "jsval \<Rightarrow> exn + string" where
  "cdataWrap v =
     (case toStr (coalesce v (JStr [])) of
        Inl e \<Rightarrow> Inl e
      | Inr s \<Rightarrow> Inr (cdataText s))"

text \<open>
  Reading CDATA sections back, as an XML parser does: the character data of a section runs
  to the first \<open>]]>\<close>; a section that starts right after it continues the text.
  \<open>cdataData s\<close> reads from inside a section and returns the text with what follows the
  last adjacent section, \<open>None\<close> when a section is never closed.
\<close>

fun cdataData :: "string \<Rightarrow> (string \<times> string) option" where
  "cdataData [] = None"
| "cdataData (c # cs) =
     (if prefix '']]>'' (c # cs) then
        (let r = drop 3 (c # cs) in
         if prefix ''<![CDATA['' r then cdataData (drop 9 r) else Some ([], r))
      else map_option (\<lambda>(d, r). (c # d, r)) (cdataData cs))"

definition cdataParse :: "string \<Rightarrow> (string \<times> string) option" where
  "cdataParse s = (if prefix ''<![CDATA['' s then cdataData (drop 9 s) else None)"

section \<open>Character classes and case mapping\<close>

text \<open>
  The letters of the code units \<open>0x00 .. 0xFF\<close> that have a partner of the other case in
  that range, upper case and lower case in the same order.
\<close>

definition upperLetters :: string where
  "upperLetters = ''ABCDEFGHIJKLMNOPQRSTUVWXYZ'' @
     [CHR 0xC0, CHR 0xC1, CHR 0xC2, CHR 0xC3, CHR 0xC4, CHR 0xC5, CHR 0xC6, CHR 0xC7, CHR
      0xC8, CHR 0xC9, CHR 0xCA, CHR 0xCB, CHR 0xCC, CHR 0xCD, CHR 0xCE, CHR 0xCF, CHR 0xD0,
      CHR 0xD1, CHR 0xD2, CHR 0xD3, CHR 0xD4, CHR 0xD5, CHR 0xD6, CHR 0xD8, CHR 0xD9, CHR
      0xDA, CHR 0xDB, CHR 0xDC, CHR 0xDD, CHR 0xDE]"

definition lowerLetters :: string where
  "lowerLetters = ''abcdefghijklmnopqrstuvwxyz'' @
     [CHR 0xE0, CHR 0xE1, CHR 0xE2, CHR 0xE3, CHR 0xE4, CHR 0xE5, CHR 0xE6, CHR 0xE7, CHR
      0xE8, CHR 0xE9, CHR 0xEA, CHR 0xEB, CHR 0xEC, CHR 0xED, CHR 0xEE, CHR 0xEF, CHR 0xF0,
      CHR 0xF1, CHR 0xF2, CHR 0xF3, CHR 0xF4, CHR 0xF5, CHR 0xF6, CHR 0xF8, CHR 0xF9, CHR
      0xFA, CHR 0xFB, CHR 0xFC, CHR 0xFD, CHR 0xFE]"

definition lowerUnit :: "char \<Rightarrow> char" where
  "lowerUnit c = (case map_of (zip upperLetters lowerLetters) c of None \<Rightarrow> c | Some d \<Rightarrow> d)"

definition upperUnit :: "char \<Rightarrow> char" where
  "upperUnit c = (case map_of (zip lowerLetters upperLetters) c of None \<Rightarrow> c | Some d \<Rightarrow> d)"

text \<open>\<open>s.toLowerCase()\<close>: every code unit of the range has a one-unit lower case in it.\<close>

definition toLowerCase :: "string \<Rightarrow> string" where
  "toLowerCase s = map lowerUnit s"

text \<open>
  \<open>s.toUpperCase()\<close>: the sharp s \<open>0xDF\<close> becomes \<open>SS\<close>. The upper-case forms of \<open>0xB5\<close> and
  \<open>0xFF\<close> are \<open>U+039C\<close> and \<open>U+0178\<close>, code units above \<open>0xFF\<close> that this model of strings
  does not have; it keeps these two units as they are. The function is used for the
  \<open>ItemTypeCode\<close> of a check type only, and no statement below depends on that text.
\<close>

definition toUpperCase :: "string \<Rightarrow> string" where
  "toUpperCase s = concat (map (\<lambda>c. if c = CHR 0xDF then ''SS'' else [upperUnit c]) s)"

text \<open>The class \<open>\d\<close>; \<open>\D\<close> is its complement.\<close>

definition isDigit :: "char \<Rightarrow> bool" where
  "isDigit c = (c \<in> set ''0123456789'')"

text \<open>The class \<open>\s\<close>, which is also what \<open>trim()\<close> removes: tab, line feed, vertical tab,
  form feed, carriage return, space and no-break space.\<close>

definition isSpace :: "char \<Rightarrow> bool" where
  "isSpace c = (c \<in> set [CHR 0x09, CHR 0x0A, CHR 0x0B, CHR 0x0C, CHR 0x0D, CHR 0x20, CHR 0xA0])"

definition trim :: "string \<Rightarrow> string" where
  "trim s = rev (dropWhile isSpace (rev (dropWhile isSpace s)))"

section \<open>Phone numbers\<close>

text \<open>
  \<open>formatSmsPortalNumber(phone)\<close>; \<open>String(phone)\<close> may throw, \<open>replace(/\D/g, '')\<close> keeps the
  digits.
\<close>

definition formatSmsPortalNumber :: "jsval \<Rightarrow> exn + string" where
  "formatSmsPortalNumber phone =
     (if \<not> truthy phone then Inr []
      else
        (case toStr phone of
           Inl e \<Rightarrow> Inl e
         | Inr s \<Rightarrow>
             Inr (let cleaned = filter isDigit s in
                  if cleaned = [] then []
                  else if prefix ''27'' cleaned then cleaned
                  else if prefix ''0'' cleaned then ''27'' @ drop 1 cleaned
                  else if length cleaned = 9 then ''27'' @ cleaned
                  else cleaned)))"

text \<open>
  The number normalizer in the words of the specification: the input is the string left
  after all non-digit characters are stripped.
\<close>

definition specNormalize :: "string \<Rightarrow> string" where
  "specNormalize digits =
     (if take 2 digits = ''27'' then digits
      else if take 1 digits = ''0'' then ''27'' @ tl digits
      else if length digits = 9 then ''27'' @ digits
      else digits)"

section \<open>Secrets and environment\<close>

text \<open>
  \<open>process.env\<close> maps variable names to strings; reading an unset variable gives
  \<open>undefined\<close>.
\<close>

type_synonym env = "string \<rightharpoonup> string"

definition envVar :: "env \<Rightarrow> string \<Rightarrow> jsval" where
  "envVar env k = (case env k of None \<Rightarrow> Undefined | Some s \<Rightarrow> JStr s)"

text \<open>
  The state of one candidate \<open>secrets.local.json\<close>: absent, present but not readable as
  JSON (\<open>readFileSync\<close> or \<open>JSON.parse\<close> throws), or present with its parsed value.
\<close>

datatype secretsFile = Missing | Unreadable | Parsed jsval

text \<open>\<open>typeof v === 'object'\<close> holds of objects, arrays and \<open>null\<close>.\<close>

fun typeofObject :: "jsval \<Rightarrow> bool" where
  "typeofObject Null = True"
| "typeofObject (JArr xs) = True"
| "typeofObject (JObj kvs) = True"
| "typeofObject v = False"

text \<open>
  \<open>loadLocalSecrets()\<close> over the candidates in their order (working directory, then the
  directory of the script): the first file that exists decides.
\<close>

fun loadLocalSecrets :: "secretsFile list \<Rightarrow> jsval" where
  "loadLocalSecrets [] = Null"
| "loadLocalSecrets (Missing # fs) = loadLocalSecrets fs"
| "loadLocalSecrets (Unreadable # fs) = Null"
| "loadLocalSecrets (Parsed json # fs) = (if truthy json \<and> typeofObject json then json else Null)"

section \<open>The MIE endpoint\<close>

text \<open>
  What a handler answers: \<open>res.status(n).json(body)\<close>, or the reply of its \<open>catch\<close> block,
  which has status 500 and carries the message of the exception.
\<close>

datatype reply = Reply nat jsval | Caught exn

text \<open>
  The fields the handler destructures from \<open>req.body || {}\<close>, \<open>methodName\<close> being the field
  \<open>method\<close>; \<open>payload\<close> defaults to \<open>{}\<close>.
\<close>

record mieRequest =
  methodName :: jsval
  soapUrl :: jsval
  username :: jsval
  passwordFromBody :: jsval
  clientKey :: jsval
  agentKey :: jsval
  source :: jsval
  payload :: jsval
  aLogonXmlOverride :: jsval
  aArgumentOverride :: jsval

definition destructure :: "jsval \<Rightarrow> mieRequest" where
  "destructure body =
     (let b = orElse body (JObj []) in
      \<lparr> methodName = optProp b ''method'',
        soapUrl = optProp b ''soapUrl'',
        username = optProp b ''username'',
        passwordFromBody = optProp b ''password'',
        clientKey = optProp b ''clientKey'',
        agentKey = optProp b ''agentKey'',
        source = optProp b ''source'',
        payload = (if optProp b ''payload'' = Undefined then JObj [] else optProp b ''payload''),
        aLogonXmlOverride = optProp b ''aLogonXml'',
        aArgumentOverride = optProp b ''aArgument'' \<rparr>)"

text \<open>
  \<open>passwordFromBody || process.env.MIE_PASSWORD || secrets?.MIE_PASSWORD ||
  secrets?.mie_password || null\<close>
\<close>

definition resolvePassword :: "env \<Rightarrow> jsval \<Rightarrow> jsval \<Rightarrow> jsval" where
  "resolvePassword env secrets fromBody =
     orElse fromBody
       (orElse (envVar env ''MIE_PASSWORD'')
          (orElse (optProp secrets ''MIE_PASSWORD'')
             (orElse (optProp secrets ''mie_password'') Null)))"

definition logonTemplate :: "jsval \<Rightarrow> jsval \<Rightarrow> jsval \<Rightarrow> exn + string" where
  "logonTemplate user password src =
     template [coalesce user (JStr []), password, coalesce src (JStr [])] (
       ''<xml><Token>'' @
       ''<UserName>'' @ render (coalesce user (JStr [])) @ ''</UserName>'' @
       ''<Password>'' @ render password @ ''</Password>'' @
       ''<Source>'' @ render (coalesce src (JStr [])) @ ''</Source>'' @
       ''</Token></xml>'')"

text \<open>The \<open>aLogonXml\<close> value: the override, or the template when the override is falsy.\<close>

definition aLogonXml :: "mieRequest \<Rightarrow> jsval \<Rightarrow> exn + jsval" where
  "aLogonXml rq password =
     (if truthy (aLogonXmlOverride rq) then Inr (aLogonXmlOverride rq)
      else (case logonTemplate (username rq) password (source rq) of
              Inl e \<Rightarrow> Inl e
            | Inr x \<Rightarrow> Inr (JStr x)))"

text \<open>The clock readings of one request: \<open>Date.now()\<close> and \<open>new Date().toISOString()\<close>.\<close>

record clock =
  dateNow :: nat
  isoNow :: string

text \<open>One \<open>Item\<close> of the request; \<open>t.toUpperCase()\<close> throws unless \<open>t\<close> is a string.\<close>

fun itemXml :: "jsval \<Rightarrow> jsval \<Rightarrow> exn + string" where
  "itemXml indemnity (JStr t) = Inr (
     ''<Item>'' @
     ''<RemoteItemKey></RemoteItemKey>'' @
     ''<ItemTypeCode>'' @ toUpperCase t @ ''</ItemTypeCode>'' @
     ''<Indemnity>'' @ (if truthy indemnity then ''true'' else ''false'') @ ''</Indemnity>'' @
     ''<ItemInputGroupList></ItemInputGroupList>'' @
     ''</Item>'')"
| "itemXml indemnity t = Inl TypeError"

text \<open>\<open>checkTypes.map(...).join('')\<close>: the first throwing element ends the evaluation.\<close>

fun itemsXml :: "jsval \<Rightarrow> jsval list \<Rightarrow> exn + string" where
  "itemsXml indemnity [] = Inr []"
| "itemsXml indemnity (t # ts) =
     (case itemXml indemnity t of
        Inl e \<Rightarrow> Inl e
      | Inr x \<Rightarrow> (case itemsXml indemnity ts of Inl e \<Rightarrow> Inl e | Inr xs \<Rightarrow> Inr (x @ xs)))"

fun arrayOrEmpty :: "jsval \<Rightarrow> jsval list" where
  "arrayOrEmpty (JArr xs) = xs"
| "arrayOrEmpty v = []"

text \<open>
  The request template, evaluated only when no override is given: the values it inserts,
  and its text when all of them convert. \<open>payload.dateOfBirth\<close> is inserted only when truthy.
\<close>

definition argumentValues :: "mieRequest \<Rightarrow> jsval \<Rightarrow> jsval list" where
  "argumentValues rq remoteKey =
     (let p = payload rq in
      [coalesce (clientKey rq) (JStr []),
       coalesce (clientKey rq) (JStr []),
       coalesce (agentKey rq) (JStr []),
       remoteKey,
       coalesce (optProp p ''firstName'') (JStr []),
       coalesce (optProp p ''lastName'') (JStr []),
       coalesce (optProp p ''idNumber'') (JStr [])] @
      (if truthy (optProp p ''dateOfBirth'') then [optProp p ''dateOfBirth''] else []) @
      [coalesce (optProp p ''phone'') (JStr []),
       coalesce (optProp p ''email'') (JStr []),
       coalesce (optProp p ''source'') (coalesce (source rq) (JStr []))])"

definition argumentText :: "clock \<Rightarrow> mieRequest \<Rightarrow> jsval \<Rightarrow> string \<Rightarrow> string" where
  "argumentText clk rq remoteKey items =
     (let p = payload rq in
      ''<xml><Request>'' @
      ''<ClientKey>'' @ render (coalesce (clientKey rq) (JStr [])) @ ''</ClientKey>'' @
      ''<AgentClient>'' @ render (coalesce (clientKey rq) (JStr [])) @ ''</AgentClient>'' @
      ''<AgentKey>'' @ render (coalesce (agentKey rq) (JStr [])) @ ''</AgentKey>'' @
      ''<RemoteRequest>'' @ render remoteKey @ ''</RemoteRequest>'' @
      ''<OrderNumber></OrderNumber>'' @
      ''<RequestReason></RequestReason>'' @
      ''<Note></Note>'' @
      ''<FirstNames>'' @ render (coalesce (optProp p ''firstName'') (JStr [])) @ ''</FirstNames>'' @
      ''<Surname>'' @ render (coalesce (optProp p ''lastName'') (JStr [])) @ ''</Surname>'' @
      ''<MaidenName></MaidenName>'' @
      ''<IdNumber>'' @ render (coalesce (optProp p ''idNumber'') (JStr [])) @ ''</IdNumber>'' @
      ''<Passport></Passport>'' @
      (if truthy (optProp p ''dateOfBirth'')
       then ''<DateOfBirth>'' @ render (optProp p ''dateOfBirth'') @ ''</DateOfBirth>''
       else ''<DateOfBirth></DateOfBirth>'') @
      ''<ContactNumber>'' @ render (coalesce (optProp p ''phone'') (JStr [])) @ ''</ContactNumber>'' @
      ''<PersonEmail>'' @ render (coalesce (optProp p ''email'') (JStr [])) @ ''</PersonEmail>'' @
      ''<AlternateEmail></AlternateEmail>'' @
      ''<Source>'' @
        render (coalesce (optProp p ''source'') (coalesce (source rq) (JStr []))) @
      ''</Source>'' @
      ''<EntityKind>P</EntityKind>'' @
      ''<RemoteCaptureDate>'' @ isoNow clk @ ''</RemoteCaptureDate>'' @
      ''<RemoteSendDate>'' @ isoNow clk @ ''</RemoteSendDate>'' @
      ''<RemoteGroup></RemoteGroup>'' @
      ''<PrerequisiteGroupList></PrerequisiteGroupList>'' @
      ''<PrerequisiteImageList></PrerequisiteImageList>'' @
      ''<ItemList>'' @ items @ ''</ItemList>'' @
      ''</Request></xml>'')"

definition argumentTemplate :: "clock \<Rightarrow> mieRequest \<Rightarrow> jsval list \<Rightarrow> jsval \<Rightarrow> exn + string" where
  "argumentTemplate clk rq checkTypes remoteKey =
     (case itemsXml (optProp (payload rq) ''indemnityAcknowledged'') checkTypes of
        Inl e \<Rightarrow> Inl e
      | Inr items \<Rightarrow>
          template (argumentValues rq remoteKey) (argumentText clk rq remoteKey items))"

text \<open>
  The \<open>aArgument\<close> value. Reading \<open>payload.checkTypes\<close> throws on a \<open>null\<close> payload, with or
  without an override.
\<close>

definition aArgument :: "clock \<Rightarrow> mieRequest \<Rightarrow> exn + jsval" where
  "aArgument clk rq =
     (case getProp (payload rq) ''checkTypes'' of
        None \<Rightarrow> Inl TypeError
      | Some cts \<Rightarrow>
          let checkTypes = arrayOrEmpty cts;
              remoteKey = orElse (optProp (payload rq) ''remoteKey'')
                            (JStr (''RS_'' @ showNat (dateNow clk)))
          in if truthy (aArgumentOverride rq) then Inr (aArgumentOverride rq)
             else (case argumentTemplate clk rq checkTypes remoteKey of
                     Inl e \<Rightarrow> Inl e
                   | Inr x \<Rightarrow> Inr (JStr x)))"

definition allowList :: "string list" where
  "allowList = [''ksoputrequest'', ''ksoputbranch'', ''ksoputrequestredirect'']"

text \<open>\<open>hasArgument\<close>, of the text \<open>String(method)\<close>.\<close>

definition hasArgument :: "string \<Rightarrow> bool" where
  "hasArgument m = (toLowerCase m \<in> set allowList)"

definition soapPreamble :: string where
  "soapPreamble =
     ''<?xml version='' @ [DQ] @ ''1.0'' @ [DQ] @ '' encoding='' @ [DQ] @ ''utf-8'' @ [DQ] @
     ''?>'' @ [LF] @
     ''<soap:Envelope xmlns:xsi='' @ [DQ] @ ''http://www.w3.org/2001/XMLSchema-instance'' @ [DQ] @
     '' xmlns:xsd='' @ [DQ] @ ''http://www.w3.org/2001/XMLSchema'' @ [DQ] @
     '' xmlns:soap='' @ [DQ] @ ''http://schemas.xmlsoap.org/soap/envelope/'' @ [DQ] @ ''>'' @
     ''<soap:Body>''"

definition krollNamespace :: string where
  "krollNamespace = '' xmlns='' @ [DQ] @ ''http://www.kroll.co.za/'' @ [DQ] @ ''>''"

text \<open>
  The envelope for the method text \<open>m\<close>, with the wrapped logon fragment and the element of
  the request fragment, which is empty outside the allow-list.
\<close>

definition envelopeText :: "string \<Rightarrow> string \<Rightarrow> string \<Rightarrow> string" where
  "envelopeText m logonCData argElement =
     soapPreamble @
     ''<'' @ m @ krollNamespace @
     ''<aLogonXml>'' @ logonCData @ ''</aLogonXml>'' @
     argElement @
     ''</'' @ m @ ''>'' @
     ''</soap:Body>'' @
     ''</soap:Envelope>''"

text \<open>
  \<open>soapEnvelope\<close>: \<open>cdataWrap(aLogonXml)\<close> always, \<open>cdataWrap(aArgument)\<close> only when
  \<open>hasArgument\<close>; either may throw.
\<close>

definition soapEnvelope :: "string \<Rightarrow> jsval \<Rightarrow> jsval \<Rightarrow> exn + string" where
  "soapEnvelope m logon arg =
     (case cdataWrap logon of
        Inl e \<Rightarrow> Inl e
      | Inr l \<Rightarrow>
          if hasArgument m then
            (case cdataWrap arg of
               Inl e \<Rightarrow> Inl e
             | Inr a \<Rightarrow> Inr (envelopeText m l (''<aArgument>'' @ a @ ''</aArgument>'')))
          else Inr (envelopeText m l []))"

definition soapAction :: "string \<Rightarrow> string" where
  "soapAction m = ''http://www.kroll.co.za/'' @ m"

text \<open>The one outbound call: \<open>fetch(soapUrl, { headers: { SOAPAction }, body })\<close>.\<close>

record outbound =
  obUrl :: jsval
  obAction :: string
  obBody :: string

definition passwordHint :: string where
  "passwordHint =
     ''Set MIE_PASSWORD as an environment variable OR add secrets.local.json with { '' @
     [DQ] @ ''MIE_PASSWORD'' @ [DQ] @ '': '' @ [DQ] @ ''...'' @ [DQ] @ '' }''"

text \<open>
  The handler up to its \<open>await fetch\<close>: either it has answered (\<open>Inl\<close>) or it hands the call
  to the network (\<open>Inr\<close>). The secrets file is read only after the two presence checks.
  \<open>String(method)\<close> is evaluated for \<open>hasArgument\<close>, after both fragments are built.
\<close>

definition miePrepare :: "env \<Rightarrow> secretsFile list \<Rightarrow> clock \<Rightarrow> jsval \<Rightarrow> reply + outbound" where
  "miePrepare env files clk body =
     (let rq = destructure body in
      if \<not> truthy (methodName rq) then
        Inl (Reply 400 (JObj [(''ok'', JBool False), (''error'', JStr ''Missing method'')]))
      else if \<not> truthy (soapUrl rq) then
        Inl (Reply 400 (JObj [(''ok'', JBool False), (''error'', JStr ''Missing soapUrl'')]))
      else
        let password = resolvePassword env (loadLocalSecrets files) (passwordFromBody rq) in
        if \<not> truthy password then
          Inl (Reply 400 (JObj [(''ok'', JBool False),
                                (''error'', JStr ''Missing MIE password''),
                                (''hint'', JStr passwordHint)]))
        else
          (case aLogonXml rq password of
             Inl e \<Rightarrow> Inl (Caught e)
           | Inr logon \<Rightarrow>
               (case aArgument clk rq of
                  Inl e \<Rightarrow> Inl (Caught e)
                | Inr arg \<Rightarrow>
                    (case toStr (methodName rq) of
                       Inl e \<Rightarrow> Inl (Caught e)
                     | Inr m \<Rightarrow>
                         (case soapEnvelope m logon arg of
                            Inl e \<Rightarrow> Inl (Caught e)
                          | Inr envelope \<Rightarrow>
                              Inr \<lparr> obUrl = soapUrl rq,
                                    obAction = soapAction m,
                                    obBody = envelope \<rparr>)))))"

section \<open>Response extraction\<close>

text \<open>
  Matching under the flag \<open>i\<close> compares the canonical (upper-case) forms of two code
  units. \<open>ciPrefix pat s\<close>: the literal pattern \<open>pat\<close> matches at the start of \<open>s\<close>.
\<close>

fun ciPrefix :: "string \<Rightarrow> string \<Rightarrow> bool" where
  "ciPrefix [] s = True"
| "ciPrefix (p # ps) [] = False"
| "ciPrefix (p # ps) (c # cs) = (upperUnit p = upperUnit c \<and> ciPrefix ps cs)"

text \<open>
  \<open>s.match(re)\<close> without the flag \<open>g\<close> tries the pattern at every position from the left,
  the end of the string included, and takes the first position where it matches.
\<close>

fun firstMatch :: "(string \<Rightarrow> 'a option) \<Rightarrow> string \<Rightarrow> 'a option" where
  "firstMatch m [] = m []"
| "firstMatch m (c # cs) = (case m (c # cs) of None \<Rightarrow> firstMatch m cs | Some r \<Rightarrow> Some r)"

text \<open>
  A lazy group \<open>([\s\S]*?)\<close> followed by a literal: the shortest text after which the
  literal matches.
\<close>

fun lazyUntil :: "string \<Rightarrow> string \<Rightarrow> string option" where
  "lazyUntil close [] = (if ciPrefix close [] then Some [] else None)"
| "lazyUntil close (c # cs) =
     (if ciPrefix close (c # cs) then Some [] else map_option ((#) c) (lazyUntil close cs))"

text \<open>
  \<open>extractTagText\<close> puts the tag name into the pattern source as it is, so its characters
  are read as pattern text. One unit of a tag name made of plain characters and \<open>.\<close>: the
  \<open>.\<close> matches every unit but a line terminator, any other character matches the units of
  its own canonical form.
\<close>

definition unitMatches :: "char \<Rightarrow> char \<Rightarrow> bool" where
  "unitMatches p c = (if p = CHR ''.'' then c \<noteq> LF \<and> c \<noteq> CR else upperUnit p = upperUnit c)"

fun patPrefix :: "string \<Rightarrow> string \<Rightarrow> bool" where
  "patPrefix [] s = True"
| "patPrefix (p # ps) [] = False"
| "patPrefix (p # ps) (c # cs) = (unitMatches p c \<and> patPrefix ps cs)"

fun patLazyUntil :: "string \<Rightarrow> string \<Rightarrow> string option" where
  "patLazyUntil close [] = (if patPrefix close [] then Some [] else None)"
| "patLazyUntil close (c # cs) =
     (if patPrefix close (c # cs) then Some [] else map_option ((#) c) (patLazyUntil close cs))"

text \<open>
  The pattern \<open><TAG[^>]*>([\s\S]*?)</TAG>\<close> at the start of \<open>s\<close>, for such a tag name.
  \<open>[^>]*\<close> is greedy and must be followed by \<open>>\<close>, so it ends at the first \<open>>\<close>. The result is
  the captured group.
\<close>

definition matchTagAt :: "string \<Rightarrow> string \<Rightarrow> string option" where
  "matchTagAt tagName s =
     (if patPrefix (''<'' @ tagName) s then
        (case dropWhile (\<lambda>c. c \<noteq> CHR ''>'') (drop (length tagName + 1) s) of
           [] \<Rightarrow> None
         | g # rest \<Rightarrow> patLazyUntil (''</'' @ tagName @ ''>'') rest)
      else None)"

text \<open>
  The characters with a meaning in a pattern, the tag names free of them, and the tag names
  made of plain characters and \<open>.\<close>.
\<close>

definition patternSyntax :: "char set" where
  "patternSyntax = set (CHR 0x5C # ''^$.*+?()[]{}|'')"

definition plainTag :: "string \<Rightarrow> bool" where
  "plainTag tagName = (\<forall>c \<in> set tagName. c \<notin> patternSyntax)"

definition dottedTag :: "string \<Rightarrow> bool" where
  "dottedTag tagName = (\<forall>c \<in> set tagName. c = CHR ''.'' \<or> c \<notin> patternSyntax)"

text \<open>
  A tag name with a \<open>(\<close> and without \<open>)\<close>, backslash, \<open>[\<close> and \<open>]\<close>: each of its two copies in
  the pattern opens a group that nothing closes, and \<open>new RegExp\<close> throws a \<open>SyntaxError\<close>.
\<close>

definition unclosedGroup :: "string \<Rightarrow> bool" where
  "unclosedGroup tagName =
     (CHR ''('' \<in> set tagName \<and> (\<forall>c \<in> set tagName. c \<notin> set (CHR 0x5C # '')[]'')))"

text \<open>
  For every other tag name the outcome of \<open>xml.match(new RegExp(...))\<close> is the one of the
  regular-expression engine of the runtime, which the model does not interpret: the engine
  is a parameter that gives, for a tag name and a text, the exception or the group
  (\<open>None\<close> for no match and for a group that took no part in the match).
\<close>

type_synonym tagEngine = "string \<Rightarrow> string \<Rightarrow> exn + string option"

text \<open>\<open>extractTagText(xml, tagName)\<close>; an empty text returns before the pattern is built.\<close>

definition extractTagText :: "tagEngine \<Rightarrow> string \<Rightarrow> string \<Rightarrow> exn + string option" where
  "extractTagText engine xml tagName =
     (if xml = [] then Inr None
      else if dottedTag tagName then Inr (firstMatch (matchTagAt tagName) xml)
      else if unclosedGroup tagName then Inl SyntaxError
      else engine tagName xml)"

text \<open>
  The three patterns of \<open>extractRequestKey\<close> at the start of \<open>s\<close>, each giving its group:
  \<open><RequestKey>([^<]+)<\/RequestKey>\<close>, \<open>RequestKey\s*=\s*"([^"]+)"\<close> and
  \<open>RequestKey\s*:\s*([A-Za-z0-9_-]+)\<close>. Every greedy run is followed by a character outside
  its class, so only the longest run can match.
\<close>

definition keyElementAt :: "string \<Rightarrow> string option" where
  "keyElementAt s =
     (if ciPrefix ''<RequestKey>'' s then
        (let r = drop 12 s;
             k = takeWhile (\<lambda>c. c \<noteq> CHR ''<'') r
         in if k \<noteq> [] \<and> ciPrefix ''</RequestKey>'' (dropWhile (\<lambda>c. c \<noteq> CHR ''<'') r)
            then Some k else None)
      else None)"

definition keyAttributeAt :: "string \<Rightarrow> string option" where
  "keyAttributeAt s =
     (if ciPrefix ''RequestKey'' s then
        (case dropWhile isSpace (drop 10 s) of
           [] \<Rightarrow> None
         | e # r1 \<Rightarrow>
             if e \<noteq> CHR ''='' then None
             else (case dropWhile isSpace r1 of
                     [] \<Rightarrow> None
                   | q # r2 \<Rightarrow>
                       if q \<noteq> DQ then None
                       else (let k = takeWhile (\<lambda>c. c \<noteq> DQ) r2
                             in if k \<noteq> [] \<and> dropWhile (\<lambda>c. c \<noteq> DQ) r2 \<noteq> []
                                then Some k else None)))
      else None)"

definition isKeyChar :: "char \<Rightarrow> bool" where
  "isKeyChar c =
     (c \<in> set ''ABCDEFGHIJKLMNOPQRSTUVWXYZabcdefghijklmnopqrstuvwxyz0123456789_-'')"

definition keyColonAt :: "string \<Rightarrow> string option" where
  "keyColonAt s =
     (if ciPrefix ''RequestKey'' s then
        (case dropWhile isSpace (drop 10 s) of
           [] \<Rightarrow> None
         | e # r1 \<Rightarrow>
             if e \<noteq> CHR '':'' then None
             else (let k = takeWhile isKeyChar (dropWhile isSpace r1)
                   in if k \<noteq> [] then Some k else None))
      else None)"

text \<open>
  The loop over the patterns: the first one with a match and a non-empty group returns the
  trimmed group.
\<close>

fun tryPatterns :: "(string \<Rightarrow> string option) list \<Rightarrow> string \<Rightarrow> string option" where
  "tryPatterns [] s = None"
| "tryPatterns (re # res) s =
     (case firstMatch re s of
        None \<Rightarrow> tryPatterns res s
      | Some g \<Rightarrow> if g \<noteq> [] then Some (trim g) else tryPatterns res s)"

definition patterns :: "(string \<Rightarrow> string option) list" where
  "patterns = [keyElementAt, keyAttributeAt, keyColonAt]"

text \<open>\<open>extractRequestKey(text)\<close>, where \<open>text\<close> is a string or \<open>null\<close>.\<close>

fun extractRequestKey :: "string option \<Rightarrow> string option" where
  "extractRequestKey None = None"
| "extractRequestKey (Some s) = (if s = [] then None else tryPatterns patterns s)"

section \<open>The MIE endpoint after the vendor call\<close>

text \<open>What \<open>await fetch(...)\<close> and \<open>await resp.text()\<close> bring back: an exception, or the
  HTTP status with the body text.\<close>

datatype fetched = FetchThrows exn | Responded nat string

text \<open>\<open>resp.ok\<close>\<close>

definition respOk :: "nat \<Rightarrow> bool" where
  "respOk st = (200 \<le> st \<and> st \<le> 299)"

definition strOrNull :: "string option \<Rightarrow> jsval" where
  "strOrNull r = (case r of None \<Rightarrow> Null | Some s \<Rightarrow> JStr s)"

text \<open>
  The handler after the vendor call. \<open>m\<close> is the \<open>method\<close> of the request; the pattern for
  the tag \<open>${method}Result\<close> is built, and may throw, only for a vendor answer that is \<open>ok\<close>.
\<close>

definition mieFinish :: "tagEngine \<Rightarrow> jsval \<Rightarrow> outbound \<Rightarrow> fetched \<Rightarrow> reply" where
  "mieFinish engine m ob f =
     (case f of
        FetchThrows e \<Rightarrow> Caught e
      | Responded st respText \<Rightarrow>
          if \<not> respOk st then
            Reply 502 (JObj [(''ok'', JBool False),
                             (''error'', JStr (''MIE SOAP HTTP '' @ showNat st)),
                             (''soapAction'', JStr (obAction ob)),
                             (''soapUrl'', obUrl ob),
                             (''responseSnippet'', JStr (take 2000 respText))])
          else
            (case toStr m of
               Inl e \<Rightarrow> Caught e
             | Inr ms \<Rightarrow>
                 (case extractTagText engine respText (ms @ ''Result'') of
                    Inl e \<Rightarrow> Caught e
                  | Inr resultText \<Rightarrow>
                      let requestKey = strOrNull (extractRequestKey resultText)
                      in Reply 200 (JObj [(''ok'', JBool True),
                                          (''method'', m),
                                          (''soapAction'', JStr (obAction ob)),
                                          (''requestKey'', orElse requestKey Null),
                                          (''reference'', orElse requestKey Null),
                                          (''result'', orElse (strOrNull resultText) Null),
                                          (''rawSoapResponse'', JStr respText)]))))"

text \<open>
  The whole handler of \<open>POST /api/mie\<close>: the outbound calls it made, in order, and its reply.
\<close>

definition mieHandler ::
  "tagEngine \<Rightarrow> env \<Rightarrow> secretsFile list \<Rightarrow> clock \<Rightarrow> (outbound \<Rightarrow> fetched) \<Rightarrow> jsval \<Rightarrow>
     outbound list \<times> reply" where
  "mieHandler engine env files clk fetch body =
     (case miePrepare env files clk body of
        Inl r \<Rightarrow> ([], r)
      | Inr ob \<Rightarrow> ([ob], mieFinish engine (methodName (destructure body)) ob (fetch ob)))"

section \<open>The SMS send endpoint\<close>

text \<open>
  The destination of one recipient: of an object or array the first truthy of four
  properties, of any other value the value itself.
\<close>

definition recipientRaw :: "jsval \<Rightarrow> jsval" where
  "recipientRaw r =
     (if truthy r \<and> typeofObject r then
        orElse (optProp r ''cellphone_number'')
          (orElse (optProp r ''phone'')
             (orElse (optProp r ''contact_number'') (optProp r ''mobile'')))
      else r)"

text \<open>
  The message built for one recipient: \<open>formatSmsPortalNumber(raw)\<close> may throw, then
  \<open>String(message)\<close>, and reading \<open>options.scheduledFor\<close> throws on \<open>null\<close> options.
\<close>

definition smsMessage :: "jsval \<Rightarrow> jsval \<Rightarrow> jsval \<Rightarrow> exn + (string \<times> jsval)" where
  "smsMessage message options r =
     (case formatSmsPortalNumber (recipientRaw r) of
        Inl e \<Rightarrow> Inl e
      | Inr destination \<Rightarrow>
          (case toStr message of
             Inl e \<Rightarrow> Inl e
           | Inr content \<Rightarrow>
               (case getProp options ''scheduledFor'' of
                  None \<Rightarrow> Inl TypeError
                | Some scheduledFor \<Rightarrow>
                    Inr (destination,
                         JObj ([(''content'', JStr (trim content)),
                                (''destination'', JStr destination)] @
                               (if truthy scheduledFor then [(''sendTime'', scheduledFor)] else []) @
                               (if truthy (optProp options ''reference'')
                                then [(''reference'', optProp options ''reference'')] else []))))))"

text \<open>\<open>recipients.map(...)\<close>: the first throwing recipient ends the evaluation.\<close>

fun smsMessages :: "jsval \<Rightarrow> jsval \<Rightarrow> jsval list \<Rightarrow> exn + (string \<times> jsval) list" where
  "smsMessages message options [] = Inr []"
| "smsMessages message options (r # rs) =
     (case smsMessage message options r of
        Inl e \<Rightarrow> Inl e
      | Inr m \<Rightarrow> (case smsMessages message options rs of Inl e \<Rightarrow> Inl e | Inr ms \<Rightarrow> Inr (m # ms)))"

text \<open>
  What the handler of \<open>POST /api/sms/send\<close> does: it answers, its \<open>catch\<close> block answers
  (status 500), or it hands the bulk payload to \<open>forwardSms\<close> with the path \<open>/BulkMessages\<close>.
\<close>

datatype smsOutcome = SmsReply nat jsval | SmsCaught exn | SmsForward jsval

fun isArray :: "jsval \<Rightarrow> bool" where
  "isArray (JArr xs) = True"
| "isArray v = False"

definition smsSend :: "jsval \<Rightarrow> smsOutcome" where
  "smsSend body =
     (let b = orElse body (JObj []);
          message = optProp b ''message'';
          recipients = optProp b ''recipients'';
          options = (if optProp b ''options'' = Undefined then JObj [] else optProp b ''options'')
      in
      if \<not> truthy message then
        SmsReply 400 (JObj [(''success'', JBool False), (''error'', JStr ''Message cannot be empty'')])
      else
        (case toStr message of
           Inl e \<Rightarrow> SmsCaught e
         | Inr text \<Rightarrow>
             if trim text = [] then
               SmsReply 400 (JObj [(''success'', JBool False),
                                   (''error'', JStr ''Message cannot be empty'')])
             else if \<not> isArray recipients \<or> arrayOrEmpty recipients = [] then
               SmsReply 400 (JObj [(''success'', JBool False),
                                   (''error'', JStr ''No recipients specified'')])
             else
               (case smsMessages message options (arrayOrEmpty recipients) of
                  Inl e \<Rightarrow> SmsCaught e
                | Inr built \<Rightarrow>
                    let messages = map snd (filter (\<lambda>m. fst m \<noteq> []) built) in
                    if messages = [] then
                      SmsReply 400 (JObj [(''success'', JBool False),
                                          (''error'', JStr ''No valid recipient numbers found'')])
                    else
                      SmsForward
                        (JObj ([(''messages'', JArr messages),
                                (''testMode'', JBool (truthy (optProp options ''testMode'')))] @
                               (if truthy (optProp options ''senderId'')
                                then [(''senderId'', optProp options ''senderId'')] else []))))))"

section \<open>Reading an envelope back\<close>

text \<open>
  How the receiver of the envelope sees the element of the operation: after the fixed
  opening up to the start tag of the operation, a sequence of child elements
  \<open><name>\<close> CDATA sections \<open></name>\<close>, then the closing tags. A child is returned as its
  name with the text of its CDATA sections.
\<close>

definition stripPrefix :: "string \<Rightarrow> string \<Rightarrow> string option" where
  "stripPrefix p s = (if prefix p s then Some (drop (length p) s) else None)"

definition readChild :: "string \<Rightarrow> ((string \<times> string) \<times> string) option" where
  "readChild s =
     (case s of
        [] \<Rightarrow> None
      | c # r \<Rightarrow>
          if c \<noteq> CHR ''<'' then None
          else (case dropWhile (\<lambda>x. x \<noteq> CHR ''>'') r of
                  [] \<Rightarrow> None
                | g # after \<Rightarrow>
                    (case cdataParse after of
                       None \<Rightarrow> None
                     | Some (text, rest) \<Rightarrow>
                         (case stripPrefix (''</'' @ takeWhile (\<lambda>x. x \<noteq> CHR ''>'') r @ ''>'') rest of
                            None \<Rightarrow> None
                          | Some rest' \<Rightarrow> Some ((takeWhile (\<lambda>x. x \<noteq> CHR ''>'') r, text), rest')))))"

function readChildren :: "string \<Rightarrow> ((string \<times> string) list \<times> string) option" where
  "readChildren s =
     (if prefix ''</'' s then Some ([], s)
      else (case readChild s of
              None \<Rightarrow> None
            | Some (child, rest) \<Rightarrow>
                if length rest < length s then
                  (case readChildren rest of
                     None \<Rightarrow> None
                   | Some (children, r) \<Rightarrow> Some (child # children, r))
                else None))"
  by pat_completeness auto
termination
  by (relation "measure length") auto

declare readChildren.simps [simp del]

definition readEnvelope :: "string \<Rightarrow> string \<Rightarrow> (string \<times> string) list option" where
  "readEnvelope operation envelope =
     (case stripPrefix (soapPreamble @ ''<'' @ operation @ krollNamespace) envelope of
        None \<Rightarrow> None
      | Some inner \<Rightarrow>
          (case readChildren inner of
             None \<Rightarrow> None
           | Some (children, r) \<Rightarrow>
               if r = ''</'' @ operation @ ''>'' @ ''</soap:Body>'' @ ''</soap:Envelope>''
               then Some children else None))"

text \<open>
  The first and the non-greedy match of the tag pattern in the words of the specification:
  \<open>tagMatch tagName xml pre inner\<close> says that after \<open>pre\<close> the text reads an opening tag
  (the name in any case, then anything up to \<open>>\<close>), \<open>inner\<close>, and the closing tag.
\<close>

definition sameIgnoringCase :: "string \<Rightarrow> string \<Rightarrow> bool" where
  "sameIgnoringCase a b = (map upperUnit a = map upperUnit b)"

definition tagMatch :: "string \<Rightarrow> string \<Rightarrow> string \<Rightarrow> string \<Rightarrow> bool" where
  "tagMatch tagName xml pre inner =
     (\<exists>opening attrs closing post.
        xml = pre @ opening @ attrs @ ''>'' @ inner @ closing @ post \<and>
        sameIgnoringCase opening (''<'' @ tagName) \<and>
        CHR ''>'' \<notin> set attrs \<and>
        sameIgnoringCase closing (''</'' @ tagName @ ''>''))"

text \<open>
  Stage one in the words of the specification: the tag name is read letter by letter, in
  any case. \<open>literalTagAt\<close> is the tag pattern at the start of a text for that reading and
  \<open>specTagText\<close> the first match of it.
\<close>

definition literalTagAt :: "string \<Rightarrow> string \<Rightarrow> string option" where
  "literalTagAt tagName s =
     (if ciPrefix (''<'' @ tagName) s then
        (case dropWhile (\<lambda>c. c \<noteq> CHR ''>'') (drop (length tagName + 1) s) of
           [] \<Rightarrow> None
         | g # rest \<Rightarrow> lazyUntil (''</'' @ tagName @ ''>'') rest)
      else None)"

definition specTagText :: "string \<Rightarrow> string \<Rightarrow> string option" where
  "specTagText xml tagName =
     (if xml = [] then None else firstMatch (literalTagAt tagName) xml)"

text \<open>
  The three surface forms of a request key in the words of the specification, each read
  at the start of a text: an element \<open><RequestKey>k</RequestKey>\<close>, an attribute
  \<open>RequestKey = "k"\<close> and a token \<open>RequestKey : k\<close>, the name in any case and the blanks
  optional. The token is the longest run of letters, digits, \<open>_\<close> and \<open>-\<close>.
\<close>

definition elementForm :: "string \<Rightarrow> string \<Rightarrow> bool" where
  "elementForm s k =
     (\<exists>otag ctag rest.
        s = otag @ k @ ctag @ rest \<and>
        sameIgnoringCase otag ''<RequestKey>'' \<and>
        k \<noteq> [] \<and> CHR ''<'' \<notin> set k \<and>
        sameIgnoringCase ctag ''</RequestKey>'')"

definition attributeForm :: "string \<Rightarrow> string \<Rightarrow> bool" where
  "attributeForm s k =
     (\<exists>name ws1 ws2 rest.
        s = name @ ws1 @ ''='' @ ws2 @ [DQ] @ k @ [DQ] @ rest \<and>
        sameIgnoringCase name ''RequestKey'' \<and>
        (\<forall>c \<in> set ws1. isSpace c) \<and> (\<forall>c \<in> set ws2. isSpace c) \<and>
        k \<noteq> [] \<and> DQ \<notin> set k)"

definition colonForm :: "string \<Rightarrow> string \<Rightarrow> bool" where
  "colonForm s k =
     (\<exists>name ws1 ws2 rest.
        s = name @ ws1 @ '':'' @ ws2 @ k @ rest \<and>
        sameIgnoringCase name ''RequestKey'' \<and>
        (\<forall>c \<in> set ws1. isSpace c) \<and> (\<forall>c \<in> set ws2. isSpace c) \<and>
        k \<noteq> [] \<and> (\<forall>c \<in> set k. isKeyChar c) \<and>
        (rest = [] \<or> \<not> isKeyChar (hd rest)))"

section \<open>A sample request\<close>

text \<open>
  Requests with their clock readings, the calls they lead to and a vendor answer, used to
  run the handlers on concrete input.
\<close>

definition sampleClock :: clock where
  "sampleClock = \<lparr> dateNow = 1700000000000, isoNow = ''2023-11-14T22:13:20.000Z'' \<rparr>"

definition sampleBody :: jsval where
  "sampleBody = JObj [(''method'', JStr ''ksoPutRequest''),
                      (''soapUrl'', JStr ''https://vendor.example/soap''),
                      (''username'', JStr ''user''),
                      (''password'', JStr ''pw''),
                      (''aArgument'', JStr ''<xml>a]]>b</xml>'')]"

definition sampleFetch :: "nat \<Rightarrow> string \<Rightarrow> outbound \<Rightarrow> fetched" where
  "sampleFetch st txt ob = Responded st txt"

definition sampleEngine :: tagEngine where
  "sampleEngine tagName xml = Inr None"

definition sampleLogon :: string where
  "sampleLogon =
     ''<xml><Token><UserName>user</UserName><Password>pw</Password><Source></Source></Token></xml>''"

definition sampleOutbound :: outbound where
  "sampleOutbound =
     \<lparr> obUrl = JStr ''https://vendor.example/soap'',
       obAction = soapAction ''ksoPutRequest'',
       obBody = envelopeText ''ksoPutRequest'' (cdataText sampleLogon)
         (''<aArgument>'' @ cdataText ''<xml>a]]>b</xml>'' @ ''</aArgument>'') \<rparr>"

definition sampleResponse :: string where
  "sampleResponse =
     ''<soap:Body><ksoPutRequestResponse><ksoPutRequestResult><RequestKey> ABC123 </RequestKey>'' @
     ''</ksoPutRequestResult></ksoPutRequestResponse></soap:Body>''"

definition otherBodyA :: jsval where
  "otherBodyA = JObj [(''method'', JStr ''ksoGetStatus''),
                      (''soapUrl'', JStr ''https://vendor.example/soap''),
                      (''username'', JStr ''user''),
                      (''password'', JStr ''pw''),
                      (''clientKey'', JStr ''C1''),
                      (''agentKey'', JStr ''A1''),
                      (''payload'', JObj [(''firstName'', JStr ''Thandi''), (''idNumber'', JStr ''8001015009087'')])]"

definition otherBodyB :: jsval where
  "otherBodyB = JObj [(''method'', JStr ''ksoGetStatus''),
                      (''soapUrl'', JStr ''https://vendor.example/soap''),
                      (''username'', JStr ''user''),
                      (''password'', JStr ''pw''),
                      (''clientKey'', JStr ''C2''),
                      (''payload'', JObj [(''firstName'', JStr ''Sipho'')]),
                      (''aArgument'', JStr ''<xml>other</xml>'')]"

definition otherOutbound :: outbound where
  "otherOutbound =
     \<lparr> obUrl = JStr ''https://vendor.example/soap'',
       obAction = soapAction ''ksoGetStatus'',
       obBody = envelopeText ''ksoGetStatus'' (cdataText sampleLogon) [] \<rparr>"

definition envUserBody :: jsval where
  "envUserBody = JObj [(''method'', JStr ''ksoGetStatus''),
                       (''soapUrl'', JStr ''https://vendor.example/soap''),
                       (''password'', JStr ''pw'')]"

section \<open>Properties of the CDATA wrapping\<close>

lemma cdataSafe_Nil: "cdataSafe [] = []"
  by (simp add: cdataSafe_def)

lemma cdataSafe_hit: "cdataSafe ('']]>'' @ s) = '']]]]><![CDATA[>'' @ cdataSafe s"
  by (simp add: cdataSafe_def)

lemma cdataSafe_miss: "\<not> prefix '']]>'' (c # cs) \<Longrightarrow> cdataSafe (c # cs) = c # cdataSafe cs"
  unfolding cdataSafe_def by (subst replaceAll.simps(2)) (simp only: if_False list.simps)

text \<open>
  Induction along the scan of \<open>replaceAll\<close> for the pattern \<open>]]>\<close>.
\<close>

lemma cdataSafe_induct [case_names Nil hit miss]:
  assumes "P []"
    and "\<And>s. P s \<Longrightarrow> P ('']]>'' @ s)"
    and "\<And>c cs. \<not> prefix '']]>'' (c # cs) \<Longrightarrow> P cs \<Longrightarrow> P (c # cs)"
  shows "P s"
proof (induction "length s" arbitrary: s rule: less_induct)
  case less
  show ?case
  proof (cases s)
    case Nil
    then show ?thesis using assms(1) by simp
  next
    case (Cons c cs)
    show ?thesis
    proof (cases "prefix '']]>'' s")
      case True
      then obtain t where t: "s = '']]>'' @ t" by (auto simp: prefix_def)
      then have "length t < length s" by simp
      then have "P t" by (rule less)
      then show ?thesis using assms(2) t by blast
    next
      case False
      have "P cs" using less Cons by simp
      then show ?thesis using assms(3) False Cons by blast
    qed
  qed
qed

lemma cdataSafe_Cons: "\<exists>u. cdataSafe (c # cs) = c # u"
proof (cases "prefix '']]>'' (c # cs)")
  case True
  then obtain t where "c # cs = '']]>'' @ t" by (auto simp: prefix_def)
  then show ?thesis using cdataSafe_hit [of t] by auto
next
  case False
  then show ?thesis by (simp add: cdataSafe_miss)
qed

lemma cdataSafe_second:
  assumes "\<not> prefix '']]>'' (CHR '']'' # CHR '']'' # ds)"
  shows "\<exists>e u. cdataSafe ds @ '']]>'' @ r = e # u \<and> e \<noteq> CHR ''>''"
proof (cases ds)
  case Nil
  then show ?thesis by (simp add: cdataSafe_Nil)
next
  case (Cons e es)
  then have "e \<noteq> CHR ''>''" using assms by auto
  moreover obtain u where "cdataSafe (e # es) = e # u" using cdataSafe_Cons by blast
  ultimately show ?thesis using Cons by simp
qed

text \<open>
  A character copied by the scan never completes a \<open>]]>\<close> with what follows it.
\<close>

lemma cdataSafe_first:
  assumes "\<not> prefix '']]>'' (c # cs)"
  shows "\<not> prefix '']]>'' (c # cdataSafe cs @ '']]>'' @ r)"
proof (cases "c = CHR '']''")
  case False
  then show ?thesis by simp
next
  case c: True
  show ?thesis
  proof (cases cs)
    case Nil
    then show ?thesis by (simp add: cdataSafe_Nil)
  next
    case (Cons d ds)
    show ?thesis
    proof (cases "d = CHR '']''")
      case False
      moreover obtain u where "cdataSafe (d # ds) = d # u" using cdataSafe_Cons by blast
      ultimately show ?thesis using Cons by simp
    next
      case d: True
      show ?thesis
      proof (cases "prefix '']]>'' cs")
        case True
        then obtain t where "cs = '']]>'' @ t" by (auto simp: prefix_def)
        then show ?thesis using cdataSafe_hit [of t] by simp
      next
        case miss: False
        obtain e u where eu: "cdataSafe ds @ '']]>'' @ r = e # u" "e \<noteq> CHR ''>''"
          using cdataSafe_second [of ds r] assms c d Cons by auto
        have "cdataSafe cs = d # cdataSafe ds" using miss Cons by (simp add: cdataSafe_miss)
        then show ?thesis using eu d by simp
      qed
    qed
  qed
qed

lemma cdataData_safe:
  "\<not> prefix ''<![CDATA['' r \<Longrightarrow> cdataData (cdataSafe s @ '']]>'' @ r) = Some (s, r)"
proof (induction s rule: cdataSafe_induct)
  case Nil
  then show ?case by (simp add: cdataSafe_Nil)
next
  case (hit s)
  then show ?case using cdataSafe_hit [of s] by simp
next
  case (miss c cs)
  have "cdataData (c # cdataSafe cs @ '']]>'' @ r) =
      map_option (\<lambda>(d, r). (c # d, r)) (cdataData (cdataSafe cs @ '']]>'' @ r))"
    using cdataSafe_first [OF miss(1), of r]
    by (subst cdataData.simps(2)) (simp only: append_Cons if_False)
  then show ?case using miss by (simp add: cdataSafe_miss)
qed

lemma cdataSafe_split_miss:
  assumes "\<not> prefix '']]>'' (c # cs)"
  shows "\<not> prefix '']]>'' (c # cs @ '']]>'' @ b)"
proof (cases cs)
  case Nil
  then show ?thesis by simp
next
  case (Cons d ds)
  then show ?thesis using assms by (cases ds) auto
qed

text \<open>
  Every occurrence is replaced: the scan distributes over an occurrence.
\<close>

lemma cdataSafe_occurrence:
  "cdataSafe (a @ '']]>'' @ b) = cdataSafe a @ '']]]]><![CDATA[>'' @ cdataSafe b"
proof (induction a rule: cdataSafe_induct)
  case Nil
  show ?case using cdataSafe_hit [of b] by (simp add: cdataSafe_Nil)
next
  case (hit s)
  show ?case using cdataSafe_hit [of "s @ '']]>'' @ b"] cdataSafe_hit [of s] hit by simp
next
  case (miss c cs)
  have "cdataSafe (c # cs @ '']]>'' @ b) = c # cdataSafe (cs @ '']]>'' @ b)"
    using cdataSafe_split_miss [OF miss(1), of b] by (rule cdataSafe_miss)
  then show ?case using miss by (simp add: cdataSafe_miss)
qed

lemma cdataSafe_clean: "\<not> (\<exists>a b. s = a @ '']]>'' @ b) \<Longrightarrow> cdataSafe s = s"
proof (induction s rule: cdataSafe_induct)
  case Nil
  show ?case by (simp add: cdataSafe_Nil)
next
  case (hit s)
  then have False by (metis append_Nil)
  then show ?case ..
next
  case (miss c cs)
  have "\<not> (\<exists>a b. cs = a @ '']]>'' @ b)"
    using miss(3) by (metis append_Cons)
  then show ?case using miss by (simp add: cdataSafe_miss)
qed

lemma cdataParse_text:
  assumes "\<not> prefix ''<![CDATA['' r"
  shows "cdataParse (cdataText s @ r) = Some (s, r)"
  using cdataData_safe [OF assms] by (simp add: cdataText_def cdataParse_def)

text \<open>
  \<open>String(v)\<close> returns the rendering of a value that converts and throws a \<open>TypeError\<close> on
  any other value.
\<close>

lemma toStr_Inr: "toStr v = Inr s \<longleftrightarrow> printable v \<and> s = render v"
  by (auto simp: toStr_def)

lemma toStr_Inl: "toStr v = Inl e \<longleftrightarrow> \<not> printable v \<and> e = TypeError"
  by (auto simp: toStr_def)

lemma cdataWrap_Inr:
  "cdataWrap v = Inr w \<longleftrightarrow>
     printable (coalesce v (JStr [])) \<and> w = cdataText (render (coalesce v (JStr [])))"
  by (auto simp: cdataWrap_def toStr_def)

lemma cdataWrap_string: "cdataWrap (JStr u) = Inr (cdataText u)"
  by (simp add: cdataWrap_Inr coalesce_def)

text \<open>
  C1. For every string \<open>v\<close>, \<open>cdataWrap\<close> returns (it does not throw) the text \<open>cdataText v\<close>:
  every \<open>]]>\<close> of \<open>v\<close> replaced by \<open>]]]]><![CDATA[>\<close>, the result enclosed in \<open><![CDATA[\<close> and
  \<open>]]>\<close>. Reading the produced sections back, in front of any text \<open>r\<close> that does not itself
  open a section, gives exactly \<open>v\<close> and leaves \<open>r\<close>: no \<open>]]>\<close> of \<open>v\<close> closes the text early.
  Wrapping a wrapped string again and reading it back gives the wrapped string.
\<close>

theorem cdataWrap_roundtrip:
  assumes "\<not> prefix ''<![CDATA['' r"
  shows "cdataWrap (JStr v) = Inr (''<![CDATA['' @ replaceAll '']]>'' '']]]]><![CDATA[>'' v @ '']]>'')
    \<and> cdataText v = ''<![CDATA['' @ replaceAll '']]>'' '']]]]><![CDATA[>'' v @ '']]>''
    \<and> cdataSafe (a @ '']]>'' @ b) = cdataSafe a @ '']]]]><![CDATA[>'' @ cdataSafe b
    \<and> cdataParse (cdataText v @ r) = Some (v, r)
    \<and> cdataWrap (JStr (cdataText v)) = Inr (cdataText (cdataText v))
    \<and> cdataParse (cdataText (cdataText v) @ r) = Some (cdataText v, r)"
proof -
  have t: "cdataText v = ''<![CDATA['' @ replaceAll '']]>'' '']]]]><![CDATA[>'' v @ '']]>''"
    by (simp add: cdataText_def cdataSafe_def)
  have w: "cdataWrap (JStr v) = Inr (''<![CDATA['' @ replaceAll '']]>'' '']]]]><![CDATA[>'' v @ '']]>'')"
    unfolding t [symmetric] by (rule cdataWrap_string)
  note parts = w t cdataSafe_occurrence [of a b] cdataParse_text [OF assms, of v]
    cdataWrap_string [of "cdataText v"] cdataParse_text [OF assms, of "cdataText v"]
  show ?thesis by (intro conjI) (rule parts)+
qed

theorem cdataWrap_roundtrip_witness:
  "\<not> prefix ''<![CDATA['' ''</aLogonXml>''
   \<and> cdataParse (cdataText ''a]]>b'' @ ''</aLogonXml>'') = Some (''a]]>b'', ''</aLogonXml>'')
   \<and> cdataWrap (JStr ''a]]>b'') = Inr ''<![CDATA[a]]]]><![CDATA[>b]]>''"
proof -
  have h: "\<not> prefix ''<![CDATA['' ''</aLogonXml>''" by simp
  have e: "replaceAll '']]>'' '']]]]><![CDATA[>'' ''a]]>b'' = ''a]]]]><![CDATA[>b''"
    by simp
  note c = cdataWrap_roundtrip [OF h, of "''a]]>b''"]
  have "cdataWrap (JStr ''a]]>b'') = Inr ''<![CDATA[a]]]]><![CDATA[>b]]>''"
    using c [THEN conjunct1] unfolding e by simp
  moreover have "cdataParse (cdataText ''a]]>b'' @ ''</aLogonXml>'') = Some (''a]]>b'', ''</aLogonXml>'')"
    by (rule c [THEN conjunct2, THEN conjunct2, THEN conjunct2, THEN conjunct1])
  ultimately show ?thesis using h by (intro conjI)
qed

section \<open>Properties of the number normalizer\<close>

text \<open>
  The normalizer on values of every type: a falsy value gives the empty string, a truthy
  value that converts is normalized from its rendering, and a truthy value that does not
  convert makes \<open>String(phone)\<close> throw.
\<close>

lemma formatSmsPortalNumber_truthy:
  "truthy v \<Longrightarrow> printable v \<Longrightarrow>
     formatSmsPortalNumber v = Inr (specNormalize (filter isDigit (render v)))"
  by (cases "filter isDigit (render v)"; cases "tl (filter isDigit (render v))")
    (auto simp: formatSmsPortalNumber_def specNormalize_def Let_def toStr_def)

lemma formatSmsPortalNumber_falsy: "\<not> truthy v \<Longrightarrow> formatSmsPortalNumber v = Inr []"
  by (simp add: formatSmsPortalNumber_def)

lemma formatSmsPortalNumber_throws:
  "truthy v \<Longrightarrow> \<not> printable v \<Longrightarrow> formatSmsPortalNumber v = Inl TypeError"
  by (simp add: formatSmsPortalNumber_def toStr_def)

lemma specNormalize_empty: "specNormalize [] = []"
  by (simp add: specNormalize_def)

text \<open>
  C3. For every phone string \<open>s\<close>, with \<open>d\<close> the digits left after stripping: the result is
  \<open>d\<close> itself if \<open>d\<close> starts with \<open>27\<close>; else \<open>27\<close> in place of the leading zero if \<open>d\<close> starts
  with \<open>0\<close>; else \<open>27\<close> before \<open>d\<close> if \<open>d\<close> has exactly nine digits; else \<open>d\<close>. An empty or
  all-non-digit input gives the empty string.
\<close>

theorem formatSmsPortalNumber_spec:
  "formatSmsPortalNumber (JStr s) =
     Inr (let d = filter isDigit s in
          if prefix ''27'' d then d
          else if prefix ''0'' d then ''27'' @ tl d
          else if length d = 9 then ''27'' @ d
          else d)
   \<and> formatSmsPortalNumber (JStr s) = Inr (specNormalize (filter isDigit s))
   \<and> (filter isDigit s = [] \<longrightarrow> formatSmsPortalNumber (JStr s) = Inr [])"
  by (cases "filter isDigit s"; cases "tl (filter isDigit s)")
    (auto simp: formatSmsPortalNumber_def specNormalize_def Let_def toStr_def)

theorem formatSmsPortalNumber_spec_witness:
  "filter isDigit ''+-() '' = [] \<and> formatSmsPortalNumber (JStr ''+-() '') = Inr []
   \<and> formatSmsPortalNumber (JStr ''082 123-4567'') = Inr ''27821234567''"
proof -
  have e: "filter isDigit ''+-() '' = []" by (simp add: isDigit_def)
  have f: "formatSmsPortalNumber (JStr ''082 123-4567'') = Inr ''27821234567''"
    using formatSmsPortalNumber_spec [of "''082 123-4567''"] by (simp add: isDigit_def Let_def)
  from formatSmsPortalNumber_spec [of "''+-() ''"] e f show ?thesis by blast
qed

section \<open>Properties of the envelope\<close>

lemma stripPrefix_append: "stripPrefix p (p @ x) = Some x"
  by (simp add: stripPrefix_def)

lemma readChildren_end: "readChildren (''</'' @ s) = Some ([], ''</'' @ s)"
  by (subst readChildren.simps) simp

lemma takeWhile_upto: "c \<notin> set name \<Longrightarrow> takeWhile (\<lambda>x. x \<noteq> c) (name @ c # u) = name"
  by (induction name) auto

lemma dropWhile_upto: "c \<notin> set name \<Longrightarrow> dropWhile (\<lambda>x. x \<noteq> c) (name @ c # u) = c # u"
  by (induction name) auto

lemma readChild_wrapped:
  assumes "CHR ''>'' \<notin> set name" "\<not> prefix ''<![CDATA['' (''</'' @ name @ ''>'' @ rest)"
  shows "readChild (''<'' @ name @ ''>'' @ cdataText v @ ''</'' @ name @ ''>'' @ rest)
     = Some ((name, v), rest)"
proof -
  have p: "cdataParse (cdataText v @ ''</'' @ name @ ''>'' @ rest)
      = Some (v, ''</'' @ name @ ''>'' @ rest)"
    by (rule cdataParse_text [OF assms(2)])
  have s: "stripPrefix (''</'' @ name @ ''>'') ((''</'' @ name @ ''>'') @ rest) = Some rest"
    by (rule stripPrefix_append)
  show ?thesis
    unfolding readChild_def using p s
    by (simp add: takeWhile_upto [OF assms(1)] dropWhile_upto [OF assms(1)])
qed

lemma readChildren_child:
  assumes "CHR ''>'' \<notin> set name" "\<not> prefix ''<![CDATA['' (''</'' @ name @ ''>'' @ rest)"
    "name \<noteq> []" "hd name \<noteq> CHR ''/''"
  shows "readChildren (''<'' @ name @ ''>'' @ cdataText v @ ''</'' @ name @ ''>'' @ rest)
     = map_option (\<lambda>(cs, r). ((name, v) # cs, r)) (readChildren rest)"
proof -
  have n: "\<not> prefix ''</'' (''<'' @ name @ ''>'' @ cdataText v @ ''</'' @ name @ ''>'' @ rest)"
    using assms(3,4) by (cases name) auto
  show ?thesis
    apply (subst readChildren.simps)
    apply (simp only: n if_False readChild_wrapped [OF assms(1,2)])
    apply (simp split: option.splits)
    done
qed

lemma readEnvelope_parts:
  assumes "readChildren inner = Some (children, t)"
    and "t = ''</'' @ operation @ ''>'' @ ''</soap:Body>'' @ ''</soap:Envelope>''"
  shows "readEnvelope operation ((soapPreamble @ ''<'' @ operation @ krollNamespace) @ inner) =
     Some children"
  unfolding readEnvelope_def stripPrefix_append option.case assms(1) prod.case
  using assms(2) by simp

text \<open>Reading back an envelope with the request fragment, and one without.\<close>

lemma readEnvelope_with_argument:
  "readEnvelope m (envelopeText m (cdataText l) (''<aArgument>'' @ cdataText a @ ''</aArgument>'')) =
     Some [(''aLogonXml'', l), (''aArgument'', a)]"
proof -
  define tail where "tail = ''</'' @ m @ ''>'' @ ''</soap:Body>'' @ ''</soap:Envelope>''"
  define argl where "argl = ''<'' @ ''aArgument'' @ ''>'' @ cdataText a @ ''</'' @ ''aArgument'' @ ''>'' @ tail"
  have e: "envelopeText m (cdataText l) (''<aArgument>'' @ cdataText a @ ''</aArgument>'') =
      (soapPreamble @ ''<'' @ m @ krollNamespace) @
      (''<'' @ ''aLogonXml'' @ ''>'' @ cdataText l @ ''</'' @ ''aLogonXml'' @ ''>'' @ argl)"
    by (simp add: envelopeText_def tail_def argl_def)
  have t: "readChildren tail = Some ([], tail)"
    unfolding tail_def by (rule readChildren_end)
  have tp: "\<not> prefix ''<![CDATA['' (''</'' @ n @ ''>'' @ r)" for n r
    by simp
  have "readChildren argl = map_option (\<lambda>(cs, r). ((''aArgument'', a) # cs, r)) (readChildren tail)"
    unfolding argl_def by (rule readChildren_child [OF _ tp]) simp_all
  then have a: "readChildren argl = Some ([(''aArgument'', a)], tail)"
    by (simp add: t)
  have "readChildren (''<'' @ ''aLogonXml'' @ ''>'' @ cdataText l @ ''</'' @ ''aLogonXml'' @ ''>'' @ argl)
      = map_option (\<lambda>(cs, r). ((''aLogonXml'', l) # cs, r)) (readChildren argl)"
    by (rule readChildren_child [OF _ tp]) simp_all
  then have c: "readChildren (''<'' @ ''aLogonXml'' @ ''>'' @ cdataText l @ ''</'' @ ''aLogonXml'' @ ''>'' @ argl)
      = Some ([(''aLogonXml'', l), (''aArgument'', a)], tail)"
    by (simp add: a)
  show ?thesis
    unfolding e by (rule readEnvelope_parts [OF c tail_def])
qed

lemma readEnvelope_without_argument:
  "readEnvelope m (envelopeText m (cdataText l) []) = Some [(''aLogonXml'', l)]"
proof -
  define tail where "tail = ''</'' @ m @ ''>'' @ ''</soap:Body>'' @ ''</soap:Envelope>''"
  have e: "envelopeText m (cdataText l) [] =
      (soapPreamble @ ''<'' @ m @ krollNamespace) @
      (''<'' @ ''aLogonXml'' @ ''>'' @ cdataText l @ ''</'' @ ''aLogonXml'' @ ''>'' @ tail)"
    by (simp add: envelopeText_def tail_def)
  have t: "readChildren tail = Some ([], tail)"
    unfolding tail_def by (rule readChildren_end)
  have tp: "\<not> prefix ''<![CDATA['' (''</'' @ n @ ''>'' @ r)" for n r
    by simp
  have "readChildren (''<'' @ ''aLogonXml'' @ ''>'' @ cdataText l @ ''</'' @ ''aLogonXml'' @ ''>'' @ tail)
      = map_option (\<lambda>(cs, r). ((''aLogonXml'', l) # cs, r)) (readChildren tail)"
    by (rule readChildren_child [OF _ tp]) simp_all
  then have c: "readChildren (''<'' @ ''aLogonXml'' @ ''>'' @ cdataText l @ ''</'' @ ''aLogonXml'' @ ''>'' @ tail)
      = Some ([(''aLogonXml'', l)], tail)"
    by (simp add: t)
  show ?thesis
    unfolding e by (rule readEnvelope_parts [OF c tail_def])
qed

lemma soapEnvelope_Inr:
  "soapEnvelope m logon arg = Inr envelope \<longleftrightarrow>
     printable (coalesce logon (JStr [])) \<and>
     (if hasArgument m
      then printable (coalesce arg (JStr [])) \<and>
           envelope = envelopeText m (cdataText (render (coalesce logon (JStr []))))
             (''<aArgument>'' @ cdataText (render (coalesce arg (JStr []))) @ ''</aArgument>'')
      else envelope = envelopeText m (cdataText (render (coalesce logon (JStr [])))) [])"
  by (auto simp: soapEnvelope_def cdataWrap_def toStr_def split: sum.splits)

lemma truthy_not_nullish: "truthy v \<Longrightarrow> \<not> nullish v"
  by (cases v) auto

lemma coalesce_truthy: "truthy v \<Longrightarrow> coalesce v w = v"
  by (simp add: coalesce_def truthy_not_nullish)

lemma template_Inr: "template vs text = Inr x \<longleftrightarrow> (\<forall>v \<in> set vs. printable v) \<and> x = text"
  by (auto simp: template_def)

lemma aLogonXml_truthy: "aLogonXml rq pw = Inr logon \<Longrightarrow> truthy logon"
  by (auto simp: aLogonXml_def logonTemplate_def template_def split: if_splits sum.splits)

lemma aArgument_truthy: "aArgument clk rq = Inr arg \<Longrightarrow> truthy arg"
  by (auto simp: aArgument_def Let_def argumentTemplate_def template_def argumentText_def
      split: option.splits if_splits sum.splits)

text \<open>
  The handler reaches the vendor call exactly when the three inputs are present and the
  two fragments, the method name and the envelope are built without an exception.
\<close>

lemma miePrepare_Inr:
  "miePrepare env files clk body = Inr ob \<longleftrightarrow>
     truthy (methodName (destructure body)) \<and> truthy (soapUrl (destructure body)) \<and>
     truthy (resolvePassword env (loadLocalSecrets files) (passwordFromBody (destructure body))) \<and>
     (\<exists>logon arg m envelope.
        aLogonXml (destructure body)
          (resolvePassword env (loadLocalSecrets files) (passwordFromBody (destructure body))) =
          Inr logon \<and>
        aArgument clk (destructure body) = Inr arg \<and>
        toStr (methodName (destructure body)) = Inr m \<and>
        soapEnvelope m logon arg = Inr envelope \<and>
        ob = \<lparr> obUrl = soapUrl (destructure body), obAction = soapAction m, obBody = envelope \<rparr>)"
  by (auto simp: miePrepare_def Let_def split: sum.splits)

text \<open>
  C2. For every request that reaches the construction of the envelope, the operation
  element read back from the built envelope has the child \<open>aLogonXml\<close> followed by the child
  \<open>aArgument\<close> exactly when the lower-cased method name is one of \<open>ksoputrequest\<close>,
  \<open>ksoputbranch\<close> and \<open>ksoputrequestredirect\<close>; for every other method name \<open>aLogonXml\<close> is
  its only child. The children carry the texts of the two fragments.
\<close>

theorem envelope_argument_allowlist:
  assumes "miePrepare env files clk body = Inr ob"
  shows "\<exists>logon arg m.
     aLogonXml (destructure body)
       (resolvePassword env (loadLocalSecrets files) (passwordFromBody (destructure body))) =
       Inr logon \<and>
     aArgument clk (destructure body) = Inr arg \<and>
     toStr (methodName (destructure body)) = Inr m \<and>
     toStr logon = Inr (render logon) \<and>
     (toLowerCase m \<in> {''ksoputrequest'', ''ksoputbranch'', ''ksoputrequestredirect''} \<longrightarrow>
        toStr arg = Inr (render arg)) \<and>
     readEnvelope m (obBody ob) =
       Some ((''aLogonXml'', render logon) #
             (if toLowerCase m \<in> {''ksoputrequest'', ''ksoputbranch'', ''ksoputrequestredirect''}
              then [(''aArgument'', render arg)] else []))"
proof -
  let ?rq = "destructure body"
  let ?pw = "resolvePassword env (loadLocalSecrets files) (passwordFromBody ?rq)"
  obtain logon arg m envelope where l: "aLogonXml ?rq ?pw = Inr logon"
    and a: "aArgument clk ?rq = Inr arg" and m: "toStr (methodName ?rq) = Inr m"
    and e: "soapEnvelope m logon arg = Inr envelope" and ob: "obBody ob = envelope"
    using assms unfolding miePrepare_Inr by auto
  have h: "hasArgument m \<longleftrightarrow>
      toLowerCase m \<in> {''ksoputrequest'', ''ksoputbranch'', ''ksoputrequestredirect''}"
    by (simp add: hasArgument_def allowList_def)
  have cl: "coalesce logon (JStr []) = logon" by (rule coalesce_truthy [OF aLogonXml_truthy [OF l]])
  have ca: "coalesce arg (JStr []) = arg" by (rule coalesce_truthy [OF aArgument_truthy [OF a]])
  note s = e [unfolded soapEnvelope_Inr cl ca]
  have pl: "toStr logon = Inr (render logon)" using s by (simp add: toStr_def)
  show ?thesis
  proof (cases "hasArgument m")
    case True
    then have pa: "toStr arg = Inr (render arg)" using s by (simp add: toStr_def)
    have "readEnvelope m (obBody ob) = Some [(''aLogonXml'', render logon), (''aArgument'', render arg)]"
      using s True ob readEnvelope_with_argument by simp
    then show ?thesis using l a m pl pa True h by auto
  next
    case False
    have "readEnvelope m (obBody ob) = Some [(''aLogonXml'', render logon)]"
      using s False ob readEnvelope_without_argument by simp
    then show ?thesis using l a m pl False h by auto
  qed
qed

lemma destructure_sampleBody:
  "destructure sampleBody =
     \<lparr> methodName = JStr ''ksoPutRequest'', soapUrl = JStr ''https://vendor.example/soap'',
       username = JStr ''user'', passwordFromBody = JStr ''pw'', clientKey = Undefined,
       agentKey = Undefined, source = Undefined, payload = JObj [],
       aLogonXmlOverride = Undefined, aArgumentOverride = JStr ''<xml>a]]>b</xml>'' \<rparr>"
  by (simp add: destructure_def sampleBody_def orElse_def optProp_def)

lemma hasArgument_ksoPutRequest: "hasArgument ''ksoPutRequest''"
  by (simp add: hasArgument_def allowList_def toLowerCase_def lowerUnit_def upperLetters_def
      lowerLetters_def)

lemma miePrepare_sample: "miePrepare Map.empty [] sampleClock sampleBody = Inr sampleOutbound"
  unfolding miePrepare_Inr destructure_sampleBody
  by (simp add: resolvePassword_def orElse_def aArgument_def aLogonXml_def logonTemplate_def
      template_def coalesce_def optProp_def toStr_def soapEnvelope_Inr hasArgument_ksoPutRequest
      sampleOutbound_def sampleLogon_def)

theorem envelope_argument_allowlist_witness:
  "miePrepare Map.empty [] sampleClock sampleBody = Inr sampleOutbound
   \<and> readEnvelope ''ksoPutRequest'' (obBody sampleOutbound) =
       Some [(''aLogonXml'', sampleLogon), (''aArgument'', ''<xml>a]]>b</xml>'')]"
proof -
  have l: "toLowerCase ''ksoPutRequest'' = ''ksoputrequest''"
    by (simp add: toLowerCase_def lowerUnit_def upperLetters_def lowerLetters_def)
  show ?thesis
    using envelope_argument_allowlist [OF miePrepare_sample] miePrepare_sample
    unfolding destructure_sampleBody
    by (auto simp: l resolvePassword_def orElse_def aArgument_def aLogonXml_def logonTemplate_def
      template_def coalesce_def optProp_def toStr_def sampleLogon_def)
qed

section \<open>Properties of the MIE handler\<close>

lemma miePrepare_Inl_calls:
  "miePrepare env files clk body = Inl r \<Longrightarrow> mieHandler engine env files clk fetch body = ([], r)"
  by (simp add: mieHandler_def)

text \<open>
  C7. The handler answers 400 and makes no outbound call when required input is missing:
  without a method the error is \<open>Missing method\<close>; with a method and without a \<open>soapUrl\<close> it
  is \<open>Missing soapUrl\<close>; with both and no password in the body, the environment or the
  secrets file the answer carries \<open>ok: false\<close>, an error and a hint that names the
  environment variable and the secrets file.
\<close>

theorem mie_missing_input:
  "(\<not> truthy (methodName (destructure body)) \<longrightarrow>
      mieHandler engine env files clk fetch body =
        ([], Reply 400 (JObj [(''ok'', JBool False), (''error'', JStr ''Missing method'')])))
   \<and> (truthy (methodName (destructure body)) \<and> \<not> truthy (soapUrl (destructure body)) \<longrightarrow>
      mieHandler engine env files clk fetch body =
        ([], Reply 400 (JObj [(''ok'', JBool False), (''error'', JStr ''Missing soapUrl'')])))
   \<and> (truthy (methodName (destructure body)) \<and> truthy (soapUrl (destructure body)) \<and>
      \<not> truthy (passwordFromBody (destructure body)) \<and>
      \<not> truthy (envVar env ''MIE_PASSWORD'') \<and>
      \<not> truthy (optProp (loadLocalSecrets files) ''MIE_PASSWORD'') \<and>
      \<not> truthy (optProp (loadLocalSecrets files) ''mie_password'') \<longrightarrow>
      mieHandler engine env files clk fetch body =
        ([], Reply 400 (JObj [(''ok'', JBool False),
                              (''error'', JStr ''Missing MIE password''),
                              (''hint'', JStr passwordHint)])))
   \<and> (\<exists>a b. ''Missing method'' = a @ ''method'' @ b)
   \<and> (\<exists>a b. ''Missing soapUrl'' = a @ ''soapUrl'' @ b)
   \<and> (\<exists>a b c. passwordHint = a @ ''environment variable'' @ b @ ''secrets.local.json'' @ c)"
proof -
  have m: "''Missing method'' = ''Missing '' @ ''method'' @ []" by simp
  have u: "''Missing soapUrl'' = ''Missing '' @ ''soapUrl'' @ []" by simp
  have h: "passwordHint = ''Set MIE_PASSWORD as an '' @ ''environment variable'' @ '' OR add '' @
      ''secrets.local.json'' @ ('' with { '' @ [DQ] @ ''MIE_PASSWORD'' @ [DQ] @ '': '' @ [DQ] @ ''...'' @ [DQ] @ '' }'')"
    by (simp add: passwordHint_def)
  have 1: "\<not> truthy (methodName (destructure body)) \<Longrightarrow>
      mieHandler engine env files clk fetch body =
        ([], Reply 400 (JObj [(''ok'', JBool False), (''error'', JStr ''Missing method'')]))"
    by (simp add: mieHandler_def miePrepare_def Let_def)
  have 2: "truthy (methodName (destructure body)) \<Longrightarrow> \<not> truthy (soapUrl (destructure body)) \<Longrightarrow>
      mieHandler engine env files clk fetch body =
        ([], Reply 400 (JObj [(''ok'', JBool False), (''error'', JStr ''Missing soapUrl'')]))"
    by (simp add: mieHandler_def miePrepare_def Let_def)
  have 3: "truthy (methodName (destructure body)) \<Longrightarrow> truthy (soapUrl (destructure body)) \<Longrightarrow>
      \<not> truthy (passwordFromBody (destructure body)) \<Longrightarrow>
      \<not> truthy (envVar env ''MIE_PASSWORD'') \<Longrightarrow>
      \<not> truthy (optProp (loadLocalSecrets files) ''MIE_PASSWORD'') \<Longrightarrow>
      \<not> truthy (optProp (loadLocalSecrets files) ''mie_password'') \<Longrightarrow>
      mieHandler engine env files clk fetch body =
        ([], Reply 400 (JObj [(''ok'', JBool False),
                              (''error'', JStr ''Missing MIE password''),
                              (''hint'', JStr passwordHint)]))"
    by (simp add: mieHandler_def miePrepare_def Let_def resolvePassword_def orElse_def)
  show ?thesis using 1 2 3 m u h by blast
qed

theorem mie_missing_input_witness:
  "\<not> truthy (methodName (destructure (JObj [])))
   \<and> mieHandler sampleEngine Map.empty [] sampleClock (sampleFetch 200 []) (JObj []) =
       ([], Reply 400 (JObj [(''ok'', JBool False), (''error'', JStr ''Missing method'')]))
   \<and> mieHandler sampleEngine Map.empty [] sampleClock (sampleFetch 200 [])
         (JObj [(''method'', JStr ''ksoPutRequest'')]) =
       ([], Reply 400 (JObj [(''ok'', JBool False), (''error'', JStr ''Missing soapUrl'')]))
   \<and> mieHandler sampleEngine Map.empty [Missing, Parsed (JObj [(''OTHER'', JStr ''x'')])] sampleClock (sampleFetch 200 [])
         (JObj [(''method'', JStr ''ksoPutRequest''), (''soapUrl'', JStr ''https://vendor.example/soap'')]) =
       ([], Reply 400 (JObj [(''ok'', JBool False),
                             (''error'', JStr ''Missing MIE password''),
                             (''hint'', JStr passwordHint)]))"
  using mie_missing_input [of "JObj []" sampleEngine Map.empty "[]" sampleClock "sampleFetch 200 []"]
    mie_missing_input [of "JObj [(''method'', JStr ''ksoPutRequest'')]" sampleEngine Map.empty "[]" sampleClock
      "sampleFetch 200 []"]
    mie_missing_input [of "JObj [(''method'', JStr ''ksoPutRequest''), (''soapUrl'', JStr ''https://vendor.example/soap'')]"
      sampleEngine Map.empty "[Missing, Parsed (JObj [(''OTHER'', JStr ''x'')])]" sampleClock
      "sampleFetch 200 []"]
  by (simp add: destructure_def orElse_def optProp_def envVar_def)

text \<open>
  C6. When the vendor call of a request returns a status outside 200..299, the handler
  answers 502 with \<open>ok: false\<close>, the status in the error message, the \<open>soapAction\<close>, the
  \<open>soapUrl\<close> and, as \<open>responseSnippet\<close>, the first 2000 code units of the vendor body: never
  more than 2000, and not the whole body when that is longer.
\<close>

theorem mie_vendor_failure:
  assumes "miePrepare env files clk body = Inr ob"
    and "fetch ob = Responded st respText"
    and "\<not> (200 \<le> st \<and> st \<le> 299)"
  shows "\<exists>m. toStr (methodName (destructure body)) = Inr m \<and>
      mieHandler engine env files clk fetch body =
      ([ob], Reply 502 (JObj [(''ok'', JBool False),
                              (''error'', JStr (''MIE SOAP HTTP '' @ showNat st)),
                              (''soapAction'', JStr (''http://www.kroll.co.za/'' @ m)),
                              (''soapUrl'', soapUrl (destructure body)),
                              (''responseSnippet'', JStr (take 2000 respText))]))
    \<and> length (take 2000 respText) \<le> 2000
    \<and> (2000 < length respText \<longrightarrow> take 2000 respText \<noteq> respText)"
proof -
  obtain m where m: "toStr (methodName (destructure body)) = Inr m"
    and ob: "obAction ob = ''http://www.kroll.co.za/'' @ m" "obUrl ob = soapUrl (destructure body)"
    using assms(1) unfolding miePrepare_Inr by (auto simp: soapAction_def)
  have "mieHandler engine env files clk fetch body =
      ([ob], mieFinish engine (methodName (destructure body)) ob (Responded st respText))"
    using assms(1,2) by (simp add: mieHandler_def)
  moreover have "2000 < length respText \<Longrightarrow> take 2000 respText \<noteq> respText"
    by (metis length_take min.absorb2 less_imp_le_nat nat_neq_iff)
  ultimately show ?thesis
    using assms(3) ob m by (simp add: mieFinish_def respOk_def)
qed

theorem mie_vendor_failure_witness:
  "miePrepare Map.empty [] sampleClock sampleBody = Inr sampleOutbound
   \<and> sampleFetch 500 (replicate 2500 (CHR ''x'')) sampleOutbound = Responded 500 (replicate 2500 (CHR ''x''))
   \<and> \<not> (200 \<le> (500::nat) \<and> (500::nat) \<le> 299)
   \<and> mieHandler sampleEngine Map.empty [] sampleClock (sampleFetch 500 (replicate 2500 (CHR ''x'')))
        sampleBody =
      ([sampleOutbound],
       Reply 502 (JObj [(''ok'', JBool False),
                        (''error'', JStr ''MIE SOAP HTTP 500''),
                        (''soapAction'', JStr ''http://www.kroll.co.za/ksoPutRequest''),
                        (''soapUrl'', JStr ''https://vendor.example/soap''),
                        (''responseSnippet'', JStr (replicate 2000 (CHR ''x'')))]))"
proof -
  have f: "sampleFetch 500 (replicate 2500 (CHR ''x'')) sampleOutbound = Responded 500 (replicate 2500 (CHR ''x''))"
    by (simp add: sampleFetch_def)
  have s: "\<not> (200 \<le> (500::nat) \<and> (500::nat) \<le> 299)" by simp
  have n: "showNat 500 = ''500''" by (simp add: showNat.simps digitChar_def)
  show ?thesis
    using mie_vendor_failure [where fetch = "sampleFetch 500 (replicate 2500 (CHR ''x''))"
        and engine = sampleEngine, OF miePrepare_sample f s] miePrepare_sample f
    by (auto simp: destructure_sampleBody n toStr_def)
qed

section \<open>Properties of the extraction\<close>

text \<open>
  The matchers against the declarative reading of the patterns.
\<close>

lemma sameIgnoringCase_length: "sameIgnoringCase a b \<Longrightarrow> length a = length b"
  unfolding sameIgnoringCase_def by (rule map_eq_imp_length_eq)

lemma ciPrefix_iff: "ciPrefix p s \<longleftrightarrow> (\<exists>a b. s = a @ b \<and> sameIgnoringCase a p)"
proof (induction p s rule: ciPrefix.induct)
  case (1 s)
  then show ?case by (simp add: sameIgnoringCase_def)
next
  case (2 p ps)
  then show ?case by (simp add: sameIgnoringCase_def)
next
  case (3 p ps c cs)
  show ?case
  proof
    assume "ciPrefix (p # ps) (c # cs)"
    then have "upperUnit p = upperUnit c" and "ciPrefix ps cs" by simp_all
    then obtain a b where "cs = a @ b" "sameIgnoringCase a ps" using 3 by blast
    then have "c # cs = (c # a) @ b \<and> sameIgnoringCase (c # a) (p # ps)"
      using \<open>upperUnit p = upperUnit c\<close> by (simp add: sameIgnoringCase_def)
    then show "\<exists>a b. c # cs = a @ b \<and> sameIgnoringCase a (p # ps)" by blast
  next
    assume "\<exists>a b. c # cs = a @ b \<and> sameIgnoringCase a (p # ps)"
    then obtain a b where ab: "c # cs = a @ b" "sameIgnoringCase a (p # ps)" by blast
    then obtain a' where a: "a = c # a'" "cs = a' @ b"
      by (cases a) (auto simp: sameIgnoringCase_def)
    then have "upperUnit p = upperUnit c" "sameIgnoringCase a' ps"
      using ab(2) by (auto simp: sameIgnoringCase_def)
    then show "ciPrefix (p # ps) (c # cs)" using a 3 by auto
  qed
qed

lemma ciPrefix_drop:
  assumes "ciPrefix p s"
  shows "\<exists>a. s = a @ drop (length p) s \<and> sameIgnoringCase a p"
proof -
  obtain a b where "s = a @ b" "sameIgnoringCase a p" using assms ciPrefix_iff by blast
  then show ?thesis using sameIgnoringCase_length [of a p] by auto
qed

lemma firstMatch_None_iff: "firstMatch m s = None \<longleftrightarrow> (\<forall>pre suf. s = pre @ suf \<longrightarrow> m suf = None)"
proof (induction s)
  case Nil
  then show ?case by simp
next
  case (Cons c cs)
  show ?case
  proof
    assume n: "firstMatch m (c # cs) = None"
    then have h: "m (c # cs) = None" and t: "firstMatch m cs = None"
      by (auto split: option.splits)
    show "\<forall>pre suf. c # cs = pre @ suf \<longrightarrow> m suf = None"
    proof (intro allI impI)
      fix pre suf assume e: "c # cs = pre @ suf"
      show "m suf = None"
      proof (cases pre)
        case Nil
        then show ?thesis using e h by simp
      next
        case (Cons x xs)
        then have "cs = xs @ suf" using e by simp
        then show ?thesis using t Cons.IH by blast
      qed
    qed
  next
    assume a: "\<forall>pre suf. c # cs = pre @ suf \<longrightarrow> m suf = None"
    then have "m (c # cs) = None" by (metis append_Nil)
    moreover have "\<forall>pre suf. cs = pre @ suf \<longrightarrow> m suf = None"
      using a by (metis append_Cons)
    ultimately show "firstMatch m (c # cs) = None" using Cons.IH by simp
  qed
qed

lemma firstMatch_Some_iff:
  "firstMatch m s = Some r \<longleftrightarrow>
     (\<exists>pre suf. s = pre @ suf \<and> m suf = Some r \<and>
        (\<forall>pre' suf'. s = pre' @ suf' \<and> length pre' < length pre \<longrightarrow> m suf' = None))"
proof (induction s)
  case Nil
  then show ?case by auto
next
  case (Cons c cs)
  show ?case
  proof (cases "m (c # cs)")
    case (Some r')
    have "(\<exists>pre suf. c # cs = pre @ suf \<and> m suf = Some r \<and>
        (\<forall>pre' suf'. c # cs = pre' @ suf' \<and> length pre' < length pre \<longrightarrow> m suf' = None)) \<longleftrightarrow> r' = r"
    proof
      assume "\<exists>pre suf. c # cs = pre @ suf \<and> m suf = Some r \<and>
        (\<forall>pre' suf'. c # cs = pre' @ suf' \<and> length pre' < length pre \<longrightarrow> m suf' = None)"
      then obtain pre suf where p: "c # cs = pre @ suf" "m suf = Some r"
        "\<forall>pre' suf'. c # cs = pre' @ suf' \<and> length pre' < length pre \<longrightarrow> m suf' = None" by blast
      have "pre = []"
      proof (rule ccontr)
        assume "pre \<noteq> []"
        then have "c # cs = [] @ (c # cs) \<and> length ([]::string) < length pre" by simp
        then have "m (c # cs) = None" using p(3) by blast
        then show False using Some by simp
      qed
      then show "r' = r" using p Some by simp
    next
      assume "r' = r"
      then have "c # cs = [] @ (c # cs) \<and> m (c # cs) = Some r \<and>
        (\<forall>pre' suf'. c # cs = pre' @ suf' \<and> length pre' < length ([]::string) \<longrightarrow> m suf' = None)"
        using Some by simp
      then show "\<exists>pre suf. c # cs = pre @ suf \<and> m suf = Some r \<and>
        (\<forall>pre' suf'. c # cs = pre' @ suf' \<and> length pre' < length pre \<longrightarrow> m suf' = None)"
        by blast
    qed
    then show ?thesis using Some by simp
  next
    case None
    have "(\<exists>pre suf. c # cs = pre @ suf \<and> m suf = Some r \<and>
        (\<forall>pre' suf'. c # cs = pre' @ suf' \<and> length pre' < length pre \<longrightarrow> m suf' = None)) \<longleftrightarrow>
      (\<exists>pre suf. cs = pre @ suf \<and> m suf = Some r \<and>
        (\<forall>pre' suf'. cs = pre' @ suf' \<and> length pre' < length pre \<longrightarrow> m suf' = None))"
      (is "?L \<longleftrightarrow> ?R")
    proof
      assume ?L
      then obtain pre suf where p: "c # cs = pre @ suf" "m suf = Some r"
        "\<forall>pre' suf'. c # cs = pre' @ suf' \<and> length pre' < length pre \<longrightarrow> m suf' = None" by blast
      then obtain xs where xs: "pre = c # xs" "cs = xs @ suf"
        using None by (cases pre) auto
      have "\<forall>pre' suf'. cs = pre' @ suf' \<and> length pre' < length xs \<longrightarrow> m suf' = None"
      proof (intro allI impI)
        fix pre' suf' assume "cs = pre' @ suf' \<and> length pre' < length xs"
        then have "c # cs = (c # pre') @ suf' \<and> length (c # pre') < length pre" using xs by simp
        then show "m suf' = None" using p(3) by blast
      qed
      then show ?R using xs p(2) by blast
    next
      assume ?R
      then obtain pre suf where p: "cs = pre @ suf" "m suf = Some r"
        "\<forall>pre' suf'. cs = pre' @ suf' \<and> length pre' < length pre \<longrightarrow> m suf' = None" by blast
      have "\<forall>pre' suf'. c # cs = pre' @ suf' \<and> length pre' < length (c # pre) \<longrightarrow> m suf' = None"
      proof (intro allI impI)
        fix pre' suf' assume a: "c # cs = pre' @ suf' \<and> length pre' < length (c # pre)"
        show "m suf' = None"
        proof (cases pre')
          case Nil
          then show ?thesis using a None by simp
        next
          case (Cons x xs)
          then have "cs = xs @ suf' \<and> length xs < length pre" using a by simp
          then show ?thesis using p(3) by blast
        qed
      qed
      moreover have "c # cs = (c # pre) @ suf" using p(1) by simp
      ultimately show ?L using p(2) by blast
    qed
    then show ?thesis using None Cons.IH by simp
  qed
qed

lemma lazyUntil_sound:
  "lazyUntil cl s = Some d \<Longrightarrow> \<exists>rest. s = d @ rest \<and> ciPrefix cl rest"
proof (induction s arbitrary: d)
  case Nil
  then show ?case by (auto split: if_splits)
next
  case (Cons c cs)
  show ?case
  proof (cases "ciPrefix cl (c # cs)")
    case True
    then show ?thesis using Cons.prems by auto
  next
    case False
    then obtain d' where d': "lazyUntil cl cs = Some d'" "d = c # d'"
      using Cons.prems by auto
    then obtain rest where "cs = d' @ rest" "ciPrefix cl rest" using Cons.IH by blast
    then show ?thesis using d' by auto
  qed
qed

lemma lazyUntil_shortest:
  "lazyUntil cl s = Some d \<Longrightarrow> s = d' @ r' \<Longrightarrow> ciPrefix cl r' \<Longrightarrow> length d \<le> length d'"
proof (induction s arbitrary: d d')
  case Nil
  then show ?case by (auto split: if_splits)
next
  case (Cons c cs)
  show ?case
  proof (cases "ciPrefix cl (c # cs)")
    case True
    then have "d = []" using Cons.prems(1) by simp
    then show ?thesis by simp
  next
    case False
    then obtain e where e: "lazyUntil cl cs = Some e" "d = c # e"
      using Cons.prems(1) by auto
    obtain x xs where x: "d' = x # xs" "cs = xs @ r'"
      using Cons.prems(2,3) False by (cases d') auto
    then have "length e \<le> length xs" using Cons.IH [OF e(1)] Cons.prems(3) by blast
    then show ?thesis using e x by simp
  qed
qed

lemma lazyUntil_complete:
  "s = d' @ r' \<Longrightarrow> ciPrefix cl r' \<Longrightarrow> \<exists>d. lazyUntil cl s = Some d"
proof (induction s arbitrary: d')
  case Nil
  then show ?case by auto
next
  case (Cons c cs)
  show ?case
  proof (cases "ciPrefix cl (c # cs)")
    case True
    then show ?thesis by simp
  next
    case False
    then obtain xs where "d' = c # xs" "cs = xs @ r'"
      using Cons.prems by (cases d') auto
    then obtain d where "lazyUntil cl cs = Some d" using Cons.IH Cons.prems(2) by blast
    then show ?thesis using False by simp
  qed
qed

lemma upto_unique:
  assumes "a @ c # r = a' @ c # r'" "c \<notin> set a" "c \<notin> set a'"
  shows "a = a' \<and> r = r'"
proof -
  have "takeWhile (\<lambda>x. x \<noteq> c) (a @ c # r) = a" "takeWhile (\<lambda>x. x \<noteq> c) (a' @ c # r') = a'"
    using assms(2,3) by (simp_all add: takeWhile_upto)
  then have "a = a'" using assms(1) by simp
  then show ?thesis using assms(1) by simp
qed

lemma literalTagAt_sound:
  assumes "literalTagAt tagName s = Some inner"
  shows "tagMatch tagName s [] inner"
proof -
  have p: "ciPrefix (''<'' @ tagName) s" using assms by (auto simp: literalTagAt_def split: if_splits)
  then obtain start where o: "s = start @ drop (length tagName + 1) s"
      "sameIgnoringCase start (''<'' @ tagName)"
    using ciPrefix_drop [of "''<'' @ tagName" s] by auto
  define b where "b = drop (length tagName + 1) s"
  obtain g rest where g: "dropWhile (\<lambda>c. c \<noteq> CHR ''>'') b = g # rest"
      and l: "lazyUntil (''</'' @ tagName @ ''>'') rest = Some inner"
    using assms p unfolding literalTagAt_def b_def by (auto split: list.splits)
  have "g = CHR ''>''" using hd_dropWhile [of "\<lambda>c. c \<noteq> CHR ''>''" b] g by auto
  then have b: "b = takeWhile (\<lambda>c. c \<noteq> CHR ''>'') b @ ''>'' @ rest"
    using takeWhile_dropWhile_id [of "\<lambda>c. c \<noteq> CHR ''>''" b] g by simp
  obtain post where post: "rest = inner @ post" "ciPrefix (''</'' @ tagName @ ''>'') post"
    using lazyUntil_sound [OF l] by blast
  then obtain closing post' where c: "post = closing @ post'"
      "sameIgnoringCase closing (''</'' @ tagName @ ''>'')"
    using ciPrefix_iff by blast
  have "CHR ''>'' \<notin> set (takeWhile (\<lambda>c. c \<noteq> CHR ''>'') b)"
    by (auto dest: set_takeWhileD)
  moreover have "s = [] @ start @ takeWhile (\<lambda>c. c \<noteq> CHR ''>'') b @ ''>'' @ inner @ closing @ post'"
    using o(1) b post(1) c(1) unfolding b_def by (metis append_Nil)
  ultimately show ?thesis unfolding tagMatch_def using o(2) c(2) by blast
qed

lemma literalTagAt_complete:
  assumes "tagMatch tagName s [] inner'"
  shows "\<exists>inner. literalTagAt tagName s = Some inner \<and> length inner \<le> length inner'"
proof -
  obtain start attrs closing post where
    s: "s = start @ attrs @ ''>'' @ inner' @ closing @ post"
    and o: "sameIgnoringCase start (''<'' @ tagName)"
    and a: "CHR ''>'' \<notin> set attrs"
    and c: "sameIgnoringCase closing (''</'' @ tagName @ ''>'')"
    using assms unfolding tagMatch_def by auto
  have p: "ciPrefix (''<'' @ tagName) s" using s o ciPrefix_iff by blast
  have "length start = length tagName + 1" using sameIgnoringCase_length [OF o] by simp
  then have d: "drop (length tagName + 1) s = attrs @ CHR ''>'' # (inner' @ closing @ post)"
    using s by simp
  have cp: "ciPrefix (''</'' @ tagName @ ''>'') (closing @ post)" using c ciPrefix_iff by blast
  obtain inner where i: "lazyUntil (''</'' @ tagName @ ''>'') (inner' @ closing @ post) = Some inner"
    using lazyUntil_complete [OF refl cp] by blast
  have "length inner \<le> length inner'" using lazyUntil_shortest [OF i refl cp] .
  moreover have "literalTagAt tagName s = Some inner"
    unfolding literalTagAt_def d dropWhile_upto [OF a] using p i by simp
  ultimately show ?thesis by blast
qed

lemma tagMatch_shift:
  "tagMatch tagName (pre @ suf) pre inner \<longleftrightarrow> tagMatch tagName suf [] inner"
  by (simp add: tagMatch_def)

lemma tagMatch_split:
  assumes "tagMatch tagName xml pre inner"
  shows "\<exists>suf. xml = pre @ suf \<and> tagMatch tagName suf [] inner"
proof -
  obtain otag attrs ctag post where
    x: "xml = pre @ otag @ attrs @ ''>'' @ inner @ ctag @ post"
    and r: "sameIgnoringCase otag (''<'' @ tagName)" "CHR ''>'' \<notin> set attrs"
      "sameIgnoringCase ctag (''</'' @ tagName @ ''>'')"
    using assms unfolding tagMatch_def by blast
  have "tagMatch tagName (pre @ otag @ attrs @ ''>'' @ inner @ ctag @ post) pre inner"
    using assms x by simp
  then have "tagMatch tagName (otag @ attrs @ ''>'' @ inner @ ctag @ post) [] inner"
    unfolding tagMatch_shift .
  then show ?thesis using x by blast
qed

lemma tagMatch_nonempty: "tagMatch tagName xml pre inner \<Longrightarrow> xml \<noteq> []"
  unfolding tagMatch_def using sameIgnoringCase_length by fastforce

lemma specTagText_None_iff:
  "specTagText xml tagName = None \<longleftrightarrow> (\<nexists>pre inner. tagMatch tagName xml pre inner)"
proof
  assume n: "specTagText xml tagName = None"
  show "\<nexists>pre inner. tagMatch tagName xml pre inner"
  proof
    assume "\<exists>pre inner. tagMatch tagName xml pre inner"
    then obtain pre inner where t: "tagMatch tagName xml pre inner" by blast
    then obtain suf where s: "xml = pre @ suf" "tagMatch tagName suf [] inner"
      using tagMatch_split by blast
    have "xml \<noteq> []" using t by (rule tagMatch_nonempty)
    then have "firstMatch (literalTagAt tagName) xml = None" using n by (simp add: specTagText_def)
    then have "literalTagAt tagName suf = None" using s(1) firstMatch_None_iff by blast
    then show False using literalTagAt_complete [OF s(2)] by auto
  qed
next
  assume a: "\<nexists>pre inner. tagMatch tagName xml pre inner"
  have "literalTagAt tagName suf = None" if "xml = pre @ suf" for pre suf
  proof (rule ccontr)
    assume "literalTagAt tagName suf \<noteq> None"
    then obtain inner where "literalTagAt tagName suf = Some inner" by auto
    then have "tagMatch tagName suf [] inner" by (rule literalTagAt_sound)
    then have "tagMatch tagName xml pre inner" using that tagMatch_shift by blast
    then show False using a by blast
  qed
  then have "firstMatch (literalTagAt tagName) xml = None" using firstMatch_None_iff by blast
  then show "specTagText xml tagName = None" by (simp add: specTagText_def)
qed

lemma specTagText_first:
  assumes "specTagText xml tagName = Some inner"
  shows "\<exists>pre. tagMatch tagName xml pre inner \<and>
     (\<forall>pre' inner'. tagMatch tagName xml pre' inner' \<longrightarrow>
        length pre < length pre' \<or> (length pre = length pre' \<and> length inner \<le> length inner'))"
proof -
  have "firstMatch (literalTagAt tagName) xml = Some inner"
    using assms by (auto simp: specTagText_def split: if_splits)
  then obtain pre suf where x: "xml = pre @ suf" and m: "literalTagAt tagName suf = Some inner"
    and e: "\<forall>pre' suf'. xml = pre' @ suf' \<and> length pre' < length pre \<longrightarrow> literalTagAt tagName suf' = None"
    using firstMatch_Some_iff [of "literalTagAt tagName" xml inner] by blast
  have t: "tagMatch tagName xml pre inner"
    using literalTagAt_sound [OF m] x tagMatch_shift by blast
  have "length pre < length pre' \<or> (length pre = length pre' \<and> length inner \<le> length inner')"
    if tm: "tagMatch tagName xml pre' inner'" for pre' inner'
  proof -
    obtain suf' where s: "xml = pre' @ suf'" "tagMatch tagName suf' [] inner'"
      using tm tagMatch_split by blast
    obtain i where i: "literalTagAt tagName suf' = Some i" "length i \<le> length inner'"
      using literalTagAt_complete [OF s(2)] by blast
    have "\<not> length pre' < length pre" using e s(1) i(1) by auto
    moreover have "length inner \<le> length inner'" if eq: "length pre = length pre'"
    proof -
      have "pre = pre' \<and> suf = suf'" using x s(1) eq by (metis append_eq_append_conv)
      then show ?thesis using m i by simp
    qed
    ultimately show ?thesis by linarith
  qed
  then show ?thesis using t by blast
qed

lemma upperUnit_nonletter:
  assumes "x \<notin> set upperLetters" "upperUnit c = x"
  shows "c = x"
proof (cases "map_of (zip lowerLetters upperLetters) c")
  case None
  then show ?thesis using assms(2) by (simp add: upperUnit_def)
next
  case (Some d)
  then have "d \<in> set upperLetters" by (meson map_of_SomeD set_zip_rightD)
  moreover have "d = x" using Some assms(2) by (simp add: upperUnit_def)
  ultimately show ?thesis using assms(1) by simp
qed

lemma sameIgnoringCase_Cons_nonletter:
  assumes "sameIgnoringCase a (x # p)" "x \<notin> set upperLetters" "upperUnit x = x"
  shows "\<exists>a'. a = x # a' \<and> sameIgnoringCase a' p"
proof -
  obtain c a' where a: "a = c # a'" using assms(1) by (cases a) (auto simp: sameIgnoringCase_def)
  then have "upperUnit c = x" "sameIgnoringCase a' p"
    using assms(1,3) by (auto simp: sameIgnoringCase_def)
  then show ?thesis using a upperUnit_nonletter [OF assms(2)] by blast
qed

lemma lt_plain: "CHR ''<'' \<notin> set upperLetters" "upperUnit (CHR ''<'') = CHR ''<''"
  by (simp_all add: upperLetters_def upperUnit_def lowerLetters_def)

lemma dropWhile_run:
  "\<forall>x \<in> set ws. P x \<Longrightarrow> \<not> P c \<Longrightarrow> dropWhile P (ws @ c # r) = c # r"
  by (induction ws) auto

lemma takeWhile_run:
  "\<forall>x \<in> set ws. P x \<Longrightarrow> \<not> P c \<Longrightarrow> takeWhile P (ws @ c # r) = ws"
  by (induction ws) auto

lemma keyElementAt_iff: "keyElementAt s = Some k \<longleftrightarrow> elementForm s k"
proof
  assume a: "keyElementAt s = Some k"
  then have p: "ciPrefix ''<RequestKey>'' s" by (auto simp: keyElementAt_def split: if_splits)
  have len: "length ''<RequestKey>'' = 12" by simp
  obtain otag where o: "s = otag @ drop 12 s" "sameIgnoringCase otag ''<RequestKey>''"
    using ciPrefix_drop [OF p] unfolding len by blast
  define r where "r = drop 12 s"
  have k: "k = takeWhile (\<lambda>c. c \<noteq> CHR ''<'') r" "k \<noteq> []"
    and c: "ciPrefix ''</RequestKey>'' (dropWhile (\<lambda>c. c \<noteq> CHR ''<'') r)"
    using a p unfolding keyElementAt_def r_def Let_def by (auto split: if_splits)
  obtain ctag rest where ct: "dropWhile (\<lambda>c. c \<noteq> CHR ''<'') r = ctag @ rest"
      "sameIgnoringCase ctag ''</RequestKey>''"
    using c ciPrefix_iff by blast
  have "r = k @ ctag @ rest"
    using takeWhile_dropWhile_id [of "\<lambda>c. c \<noteq> CHR ''<''" r] k(1) ct(1) by simp
  then have "s = otag @ k @ ctag @ rest" using o(1) r_def by simp
  moreover have "CHR ''<'' \<notin> set k" unfolding k(1) by (auto dest: set_takeWhileD)
  ultimately show "elementForm s k" unfolding elementForm_def using o(2) k(2) ct(2) by blast
next
  assume "elementForm s k"
  then obtain otag ctag rest where s: "s = otag @ k @ ctag @ rest"
    and o: "sameIgnoringCase otag ''<RequestKey>''"
    and k: "k \<noteq> []" "CHR ''<'' \<notin> set k"
    and c: "sameIgnoringCase ctag ''</RequestKey>''"
    unfolding elementForm_def by blast
  have p: "ciPrefix ''<RequestKey>'' s" using s o ciPrefix_iff by blast
  have "length otag = 12" using sameIgnoringCase_length [OF o] by simp
  then have d: "drop 12 s = k @ ctag @ rest" using s by simp
  obtain ctag' where c': "ctag = CHR ''<'' # ctag'"
    using sameIgnoringCase_Cons_nonletter [of ctag "CHR ''<''" "''/RequestKey>''"] c lt_plain by auto
  have cp: "ciPrefix ''</RequestKey>'' (ctag @ rest)" using c ciPrefix_iff by blast
  have t: "takeWhile (\<lambda>c. c \<noteq> CHR ''<'') (k @ ctag @ rest) = k"
    and dw: "dropWhile (\<lambda>c. c \<noteq> CHR ''<'') (k @ ctag @ rest) = ctag @ rest"
    unfolding c' using k(2) by (simp_all add: takeWhile_upto dropWhile_upto)
  show "keyElementAt s = Some k"
    unfolding keyElementAt_def d Let_def t dw using p k(1) cp by simp
qed

lemma eq_plain: "\<not> isSpace (CHR ''='')" "\<not> isSpace (CHR '':'')" "\<not> isSpace DQ"
  by (simp_all add: isSpace_def)

lemma isKeyChar_not_space: "isKeyChar c \<Longrightarrow> \<not> isSpace c"
  by (auto simp: isKeyChar_def isSpace_def)

lemma keyAttributeAt_iff: "keyAttributeAt s = Some k \<longleftrightarrow> attributeForm s k"
proof
  assume a: "keyAttributeAt s = Some k"
  then have p: "ciPrefix ''RequestKey'' s" by (auto simp: keyAttributeAt_def split: if_splits)
  have len: "length ''RequestKey'' = 10" by simp
  obtain name where o: "s = name @ drop 10 s" "sameIgnoringCase name ''RequestKey''"
    using ciPrefix_drop [OF p] unfolding len by blast
  define r0 where "r0 = drop 10 s"
  obtain r1 where r1: "dropWhile isSpace r0 = CHR ''='' # r1"
    using a p unfolding keyAttributeAt_def r0_def by (auto split: list.splits if_splits)
  obtain r2 where r2: "dropWhile isSpace r1 = DQ # r2"
    using a p r1 unfolding keyAttributeAt_def r0_def by (auto split: list.splits if_splits)
  have k: "k = takeWhile (\<lambda>c. c \<noteq> DQ) r2" "k \<noteq> []" "dropWhile (\<lambda>c. c \<noteq> DQ) r2 \<noteq> []"
    using a p r1 r2 unfolding keyAttributeAt_def r0_def Let_def by (auto split: if_splits)
  obtain rest where rest: "dropWhile (\<lambda>c. c \<noteq> DQ) r2 = DQ # rest"
    using k(3) hd_dropWhile [of "\<lambda>c. c \<noteq> DQ" r2] by (cases "dropWhile (\<lambda>c. c \<noteq> DQ) r2") auto
  have e0: "r0 = takeWhile isSpace r0 @ ''='' @ r1"
    using takeWhile_dropWhile_id [of isSpace r0] r1 by simp
  have e1: "r1 = takeWhile isSpace r1 @ [DQ] @ r2"
    using takeWhile_dropWhile_id [of isSpace r1] r2 by simp
  have e2: "r2 = k @ [DQ] @ rest"
    using takeWhile_dropWhile_id [of "\<lambda>c. c \<noteq> DQ" r2] k(1) rest by simp
  have "s = name @ takeWhile isSpace r0 @ ''='' @ takeWhile isSpace r1 @ [DQ] @ k @ [DQ] @ rest"
    using o(1) e0 e1 e2 unfolding r0_def by metis
  moreover have "\<forall>c \<in> set (takeWhile isSpace r0). isSpace c" "\<forall>c \<in> set (takeWhile isSpace r1). isSpace c"
    by (auto dest: set_takeWhileD)
  moreover have "DQ \<notin> set k" unfolding k(1) by (auto dest: set_takeWhileD)
  ultimately show "attributeForm s k" unfolding attributeForm_def using o(2) k(2) by blast
next
  assume "attributeForm s k"
  then obtain name ws1 ws2 rest where s: "s = name @ ws1 @ ''='' @ ws2 @ [DQ] @ k @ [DQ] @ rest"
    and o: "sameIgnoringCase name ''RequestKey''"
    and w: "\<forall>c \<in> set ws1. isSpace c" "\<forall>c \<in> set ws2. isSpace c"
    and k: "k \<noteq> []" "DQ \<notin> set k"
    unfolding attributeForm_def by blast
  have p: "ciPrefix ''RequestKey'' s" using s o ciPrefix_iff by blast
  have "length name = 10" using sameIgnoringCase_length [OF o] by simp
  then have d: "drop 10 s = ws1 @ CHR ''='' # (ws2 @ DQ # (k @ DQ # rest))" using s by simp
  have d1: "dropWhile isSpace (ws1 @ CHR ''='' # (ws2 @ DQ # (k @ DQ # rest))) =
      CHR ''='' # (ws2 @ DQ # (k @ DQ # rest))"
    by (rule dropWhile_run [OF w(1) eq_plain(1)])
  have d2: "dropWhile isSpace (ws2 @ DQ # (k @ DQ # rest)) = DQ # (k @ DQ # rest)"
    by (rule dropWhile_run [OF w(2) eq_plain(3)])
  have t: "takeWhile (\<lambda>c. c \<noteq> DQ) (k @ DQ # rest) = k"
    and dw: "dropWhile (\<lambda>c. c \<noteq> DQ) (k @ DQ # rest) = DQ # rest"
    using k(2) by (simp_all add: takeWhile_upto dropWhile_upto)
  show "keyAttributeAt s = Some k"
    unfolding keyAttributeAt_def d d1 list.case d2 Let_def t dw using p k(1) by simp
qed

lemma keyColonAt_iff: "keyColonAt s = Some k \<longleftrightarrow> colonForm s k"
proof
  assume a: "keyColonAt s = Some k"
  then have p: "ciPrefix ''RequestKey'' s" by (auto simp: keyColonAt_def split: if_splits)
  have len: "length ''RequestKey'' = 10" by simp
  obtain name where o: "s = name @ drop 10 s" "sameIgnoringCase name ''RequestKey''"
    using ciPrefix_drop [OF p] unfolding len by blast
  define r0 where "r0 = drop 10 s"
  obtain r1 where r1: "dropWhile isSpace r0 = CHR '':'' # r1"
    using a p unfolding keyColonAt_def r0_def by (auto split: list.splits if_splits)
  define r2 where "r2 = dropWhile isSpace r1"
  have k: "k = takeWhile isKeyChar r2" "k \<noteq> []"
    using a p r1 unfolding keyColonAt_def r0_def r2_def Let_def by (auto split: if_splits)
  define rest where "rest = dropWhile isKeyChar r2"
  have e0: "r0 = takeWhile isSpace r0 @ '':'' @ r1"
    using takeWhile_dropWhile_id [of isSpace r0] r1 by simp
  have e1: "r1 = takeWhile isSpace r1 @ r2"
    unfolding r2_def by simp
  have e2: "r2 = k @ rest"
    unfolding k(1) rest_def by simp
  have "s = name @ takeWhile isSpace r0 @ '':'' @ takeWhile isSpace r1 @ k @ rest"
    using o(1) e0 e1 e2 unfolding r0_def by metis
  moreover have "\<forall>c \<in> set (takeWhile isSpace r0). isSpace c" "\<forall>c \<in> set (takeWhile isSpace r1). isSpace c"
    by (auto dest: set_takeWhileD)
  moreover have "\<forall>c \<in> set k. isKeyChar c" unfolding k(1) by (auto dest: set_takeWhileD)
  moreover have "rest = [] \<or> \<not> isKeyChar (hd rest)"
    unfolding rest_def using hd_dropWhile [of isKeyChar r2] by blast
  ultimately show "colonForm s k" unfolding colonForm_def using o(2) k(2) by blast
next
  assume "colonForm s k"
  then obtain name ws1 ws2 rest where s: "s = name @ ws1 @ '':'' @ ws2 @ k @ rest"
    and o: "sameIgnoringCase name ''RequestKey''"
    and w: "\<forall>c \<in> set ws1. isSpace c" "\<forall>c \<in> set ws2. isSpace c"
    and k: "k \<noteq> []" "\<forall>c \<in> set k. isKeyChar c"
    and r: "rest = [] \<or> \<not> isKeyChar (hd rest)"
    unfolding colonForm_def by blast
  have p: "ciPrefix ''RequestKey'' s" using s o ciPrefix_iff by blast
  have "length name = 10" using sameIgnoringCase_length [OF o] by simp
  then have d: "drop 10 s = ws1 @ CHR '':'' # (ws2 @ k @ rest)" using s by simp
  have d1: "dropWhile isSpace (ws1 @ CHR '':'' # (ws2 @ k @ rest)) = CHR '':'' # (ws2 @ k @ rest)"
    by (rule dropWhile_run [OF w(1) eq_plain(2)])
  obtain c cs where kc: "k = c # cs" using k(1) by (cases k) auto
  then have "\<not> isSpace c" using k(2) isKeyChar_not_space by simp
  then have d2: "dropWhile isSpace (ws2 @ k @ rest) = k @ rest"
    unfolding kc using dropWhile_run [OF w(2), of c "cs @ rest"] by simp
  have t: "takeWhile isKeyChar (k @ rest) = k"
  proof (cases rest)
    case Nil
    then show ?thesis using k(2) by (simp add: takeWhile_eq_all_conv)
  next
    case (Cons x xs)
    then have "\<not> isKeyChar x" using r by simp
    then show ?thesis unfolding Cons by (rule takeWhile_run [OF k(2)])
  qed
  show "keyColonAt s = Some k"
    unfolding keyColonAt_def d d1 list.case d2 Let_def t using p k(1) by simp
qed

lemma firstMatch_nonempty:
  assumes "\<And>s k. m s = Some k \<Longrightarrow> k \<noteq> []" "firstMatch m s = Some g"
  shows "g \<noteq> []"
  using assms firstMatch_Some_iff [of m s g] by blast

lemma extractRequestKey_order:
  assumes "text \<noteq> []"
  shows "extractRequestKey (Some text) =
     (case firstMatch keyElementAt text of
        Some g \<Rightarrow> Some (trim g)
      | None \<Rightarrow>
          (case firstMatch keyAttributeAt text of
             Some g \<Rightarrow> Some (trim g)
           | None \<Rightarrow>
               (case firstMatch keyColonAt text of
                  Some g \<Rightarrow> Some (trim g)
                | None \<Rightarrow> None)))"
proof -
  have e: "g \<noteq> []" if "firstMatch keyElementAt text = Some g" for g
    using firstMatch_nonempty [OF _ that] keyElementAt_iff elementForm_def by blast
  have a: "g \<noteq> []" if "firstMatch keyAttributeAt text = Some g" for g
    using firstMatch_nonempty [OF _ that] keyAttributeAt_iff attributeForm_def by blast
  have c: "g \<noteq> []" if "firstMatch keyColonAt text = Some g" for g
    using firstMatch_nonempty [OF _ that] keyColonAt_iff colonForm_def by blast
  show ?thesis
    using assms e a c by (auto simp: patterns_def split: option.splits)
qed

text \<open>
  On a tag name free of pattern syntax the pattern built by \<open>extractTagText\<close> is the
  literal one, whatever the engine for other tag names does. A \<open>.\<close> in the tag name is a
  wildcard, and a group left open makes \<open>new RegExp\<close> throw.
\<close>

lemma unitMatches_literal: "p \<noteq> CHR ''.'' \<Longrightarrow> unitMatches p c = (upperUnit p = upperUnit c)"
  by (simp add: unitMatches_def)

lemma patPrefix_literal: "CHR ''.'' \<notin> set pat \<Longrightarrow> patPrefix pat s = ciPrefix pat s"
  by (induction pat s rule: ciPrefix.induct) (auto simp: unitMatches_literal)

lemma patLazyUntil_literal: "CHR ''.'' \<notin> set pat \<Longrightarrow> patLazyUntil pat s = lazyUntil pat s"
  by (induction s) (simp_all add: patPrefix_literal)

lemma plainTag_no_dot: "plainTag tagName \<Longrightarrow> CHR ''.'' \<notin> set tagName"
  by (auto simp: plainTag_def patternSyntax_def)

lemma plainTag_dotted: "plainTag tagName \<Longrightarrow> dottedTag tagName"
  by (simp add: plainTag_def dottedTag_def)

lemma matchTagAt_plain:
  assumes "plainTag tagName"
  shows "matchTagAt tagName s = literalTagAt tagName s"
proof -
  have n1: "CHR ''.'' \<notin> set (''<'' @ tagName)"
    and n2: "CHR ''.'' \<notin> set (''</'' @ tagName @ ''>'')"
    using plainTag_no_dot [OF assms] by simp_all
  have a: "patPrefix (''<'' @ tagName) s = ciPrefix (''<'' @ tagName) s"
    using n1 by (rule patPrefix_literal)
  have b: "\<And>rest. patLazyUntil (''</'' @ tagName @ ''>'') rest = lazyUntil (''</'' @ tagName @ ''>'') rest"
    using n2 by (rule patLazyUntil_literal)
  show ?thesis
    unfolding matchTagAt_def literalTagAt_def a b ..
qed

lemma extractTagText_plain:
  assumes "plainTag tagName"
  shows "extractTagText engine xml tagName = Inr (specTagText xml tagName)"
proof -
  have "matchTagAt tagName = literalTagAt tagName"
    using matchTagAt_plain [OF assms] by (rule ext)
  then show ?thesis
    using plainTag_dotted [OF assms] by (simp add: extractTagText_def specTagText_def)
qed

lemma extractTagText_dotted:
  "dottedTag tagName \<Longrightarrow> xml \<noteq> [] \<Longrightarrow>
     extractTagText engine xml tagName = Inr (firstMatch (matchTagAt tagName) xml)"
  by (simp add: extractTagText_def)

lemma extractTagText_unclosed:
  "unclosedGroup tagName \<Longrightarrow> xml \<noteq> [] \<Longrightarrow> extractTagText engine xml tagName = Inl SyntaxError"
proof -
  assume u: "unclosedGroup tagName" and x: "xml \<noteq> []"
  have "CHR ''('' \<in> set tagName"
    using u by (simp add: unclosedGroup_def)
  moreover have "CHR ''('' \<in> patternSyntax" "CHR ''('' \<noteq> CHR ''.''"
    by (simp_all add: patternSyntax_def)
  ultimately have "\<not> dottedTag tagName"
    unfolding dottedTag_def by blast
  then show ?thesis
    using u x by (simp add: extractTagText_def)
qed

lemma plainTag_FooResult: "plainTag ''FooResult''"
  by (simp add: plainTag_def patternSyntax_def)

lemma spec_example_tag:
  "specTagText ''<FooResult>...<RequestKey>ABC123</RequestKey>...</FooResult>'' ''FooResult'' =
   Some ''...<RequestKey>ABC123</RequestKey>...''"
  by code_simp

lemma spec_example_mixed:
  "specTagText (''<fooRESULT a=1>x'' @ [LF] @ ''y</FOOresult>z</fooresult>'') ''FooResult'' =
   Some (''x'' @ [LF] @ ''y'')"
  by code_simp

lemma spec_example_later:
  "specTagText ''<FooResultX<FooResult>a</FooResult><FooResult>b</FooResult>'' ''FooResult'' =
   Some ''a''"
  by code_simp

lemma spec_example_absent:
  "specTagText ''<FooResult>a</BarResult>'' ''FooResult'' = None"
  by code_simp

lemma example_tag:
  "extractTagText engine ''<FooResult>...<RequestKey>ABC123</RequestKey>...</FooResult>''
     ''FooResult'' = Inr (Some ''...<RequestKey>ABC123</RequestKey>...'')"
  unfolding extractTagText_plain [OF plainTag_FooResult] spec_example_tag ..

lemma example_mixed:
  "extractTagText engine (''<fooRESULT a=1>x'' @ [LF] @ ''y</FOOresult>z</fooresult>'')
     ''FooResult'' = Inr (Some (''x'' @ [LF] @ ''y''))"
  unfolding extractTagText_plain [OF plainTag_FooResult] spec_example_mixed ..

lemma example_later:
  "extractTagText engine ''<FooResultX<FooResult>a</FooResult><FooResult>b</FooResult>''
     ''FooResult'' = Inr (Some ''a'')"
  unfolding extractTagText_plain [OF plainTag_FooResult] spec_example_later ..

lemma example_absent:
  "extractTagText engine ''<FooResult>a</BarResult>'' ''FooResult'' = Inr None"
  unfolding extractTagText_plain [OF plainTag_FooResult] spec_example_absent ..

lemma example_element:
  "extractRequestKey (Some ''...<RequestKey>ABC123</RequestKey>...'') = Some ''ABC123''"
  by code_simp

lemma example_attribute:
  "extractRequestKey (Some (''RequestKey='' @ [DQ] @ ''XYZ'' @ [DQ])) = Some ''XYZ''"
  by code_simp

lemma example_element_case:
  "extractRequestKey (Some ''<requestkey> K-1 </REQUESTKEY>'') = Some ''K-1''"
  by code_simp

lemma example_attribute_blanks:
  "extractRequestKey (Some (''requestKEY '' @ [CHR 0x09] @ ''= '' @ [DQ] @ '' XYZ '' @ [DQ])) =
     Some ''XYZ''"
  by code_simp

lemma example_colon:
  "extractRequestKey (Some ''REQUESTKEY : Az09_-!x'') = Some ''Az09_-''"
  by code_simp

lemma example_order:
  "extractRequestKey
     (Some (''RequestKey: C RequestKey='' @ [DQ] @ ''A'' @ [DQ] @ '' <RequestKey>B</RequestKey>'')) =
   Some ''B''"
  by code_simp

lemma example_order_attribute:
  "extractRequestKey (Some (''RequestKey: C RequestKey='' @ [DQ] @ ''A'' @ [DQ])) = Some ''A''"
  by code_simp

lemma example_no_key:
  "extractRequestKey (Some ''Request Key: none'') = None"
  by code_simp

text \<open>
  C5, as stated for every tag name, fails on tag names with pattern syntax. For the tag
  \<open>a.b\<close> the text \<open><aXb>K1</aXb>\<close> has no element of that name, and stage one returns \<open>K1\<close>
  where the specification's reading finds nothing. For the tag \<open>kso(\<close> the text
  \<open><kso(>K1</kso(>\<close> has the element, and stage one throws a \<open>SyntaxError\<close> where the
  specification's reading returns \<open>K1\<close>.
\<close>

theorem extraction_pattern_tag_counterexample:
  "extractTagText sampleEngine ''<aXb>K1</aXb>'' ''a.b'' = Inr (Some ''K1'')
   \<and> specTagText ''<aXb>K1</aXb>'' ''a.b'' = None
   \<and> extractTagText sampleEngine ''<kso(>K1</kso(>'' ''kso('' = Inl SyntaxError
   \<and> specTagText ''<kso(>K1</kso(>'' ''kso('' = Some ''K1''"
proof -
  have d: "dottedTag ''a.b''" "\<not> dottedTag ''kso(''" "unclosedGroup ''kso(''"
    by (simp_all add: dottedTag_def unclosedGroup_def patternSyntax_def)
  have 1: "extractTagText sampleEngine ''<aXb>K1</aXb>'' ''a.b'' = Inr (Some ''K1'')"
  proof -
    have m: "firstMatch (matchTagAt ''a.b'') ''<aXb>K1</aXb>'' = Some ''K1''"
      by code_simp
    have x: "''<aXb>K1</aXb>'' \<noteq> []" by simp
    show ?thesis unfolding extractTagText_dotted [OF d(1) x] m ..
  qed
  have 2: "specTagText ''<aXb>K1</aXb>'' ''a.b'' = None"
    by code_simp
  have 3: "extractTagText sampleEngine ''<kso(>K1</kso(>'' ''kso('' = Inl SyntaxError"
    by (rule extractTagText_unclosed [OF d(3)]) simp
  have 4: "specTagText ''<kso(>K1</kso(>'' ''kso('' = Some ''K1''"
    by code_simp
  note parts = 1 2 3 4
  show ?thesis
    by (intro conjI) (rule parts)+
qed

text \<open>
  C5, amended. Extraction has two best-effort stages. For a tag name free of pattern
  syntax, stage one does not throw; it finds no text exactly when the response has no match
  of the opening tag (name in any case, then anything up to \<open>>\<close>), an inner text and the
  closing tag; otherwise it returns the inner text of the first match, the shortest one at
  that position. \<open>firstMatch\<close> takes the leftmost position where a pattern matches. The three
  patterns of stage two read the element, the attribute and the colon form; stage two
  returns the trimmed group of the first of them, in this order, that matches somewhere in
  the text, and nothing if none does or the text is absent or empty. The text
  \<open><FooResult>...<RequestKey>ABC123</RequestKey>...</FooResult>\<close> gives \<open>ABC123\<close> for the tag
  \<open>FooResult\<close>, and the attribute form alone gives \<open>XYZ\<close>. Further texts fix the reading: a
  tag in mixed case with an attribute and a line break in its inner text, the first of two
  elements, a closing tag of another name, a key with blanks around it, an attribute with
  blanks around \<open>=\<close>, a colon form that ends at the first character outside
  \<open>A-Za-z0-9_-\<close>, the order of the three forms, and a text without a key.
\<close>

theorem extraction_two_stage:
  assumes "plainTag tagName"
  shows "(\<exists>r. extractTagText engine xml tagName = Inr r)
   \<and> (extractTagText engine xml tagName = Inr None) =
        (\<nexists>pre inner. tagMatch tagName xml pre inner)
   \<and> (\<forall>inner. extractTagText engine xml tagName = Inr (Some inner) \<longrightarrow>
        (\<exists>pre. tagMatch tagName xml pre inner \<and>
           (\<forall>pre' inner'. tagMatch tagName xml pre' inner' \<longrightarrow>
              length pre < length pre' \<or>
              (length pre = length pre' \<and> length inner \<le> length inner'))))
   \<and> (firstMatch m s = Some r) =
        (\<exists>pre suf. s = pre @ suf \<and> m suf = Some r \<and>
           (\<forall>pre' suf'. s = pre' @ suf' \<and> length pre' < length pre \<longrightarrow> m suf' = None))
   \<and> (firstMatch m s = None) = (\<forall>pre suf. s = pre @ suf \<longrightarrow> m suf = None)
   \<and> (keyElementAt s = Some k) = elementForm s k
   \<and> (keyAttributeAt s = Some k) = attributeForm s k
   \<and> (keyColonAt s = Some k) = colonForm s k
   \<and> extractRequestKey None = None
   \<and> extractRequestKey (Some []) = None
   \<and> (text \<noteq> [] \<longrightarrow>
        extractRequestKey (Some text) =
          (case firstMatch keyElementAt text of
             Some g \<Rightarrow> Some (trim g)
           | None \<Rightarrow>
               (case firstMatch keyAttributeAt text of
                  Some g \<Rightarrow> Some (trim g)
                | None \<Rightarrow>
                    (case firstMatch keyColonAt text of
                       Some g \<Rightarrow> Some (trim g)
                     | None \<Rightarrow> None))))
   \<and> extractTagText engine ''<FooResult>...<RequestKey>ABC123</RequestKey>...</FooResult>''
        ''FooResult'' = Inr (Some ''...<RequestKey>ABC123</RequestKey>...'')
   \<and> extractRequestKey (Some ''...<RequestKey>ABC123</RequestKey>...'') = Some ''ABC123''
   \<and> extractRequestKey (Some (''RequestKey='' @ [DQ] @ ''XYZ'' @ [DQ])) = Some ''XYZ''
   \<and> extractTagText engine (''<fooRESULT a=1>x'' @ [LF] @ ''y</FOOresult>z</fooresult>'')
        ''FooResult'' = Inr (Some (''x'' @ [LF] @ ''y''))
   \<and> extractTagText engine ''<FooResultX<FooResult>a</FooResult><FooResult>b</FooResult>''
        ''FooResult'' = Inr (Some ''a'')
   \<and> extractTagText engine ''<FooResult>a</BarResult>'' ''FooResult'' = Inr None
   \<and> extractRequestKey (Some ''<requestkey> K-1 </REQUESTKEY>'') = Some ''K-1''
   \<and> extractRequestKey
        (Some (''requestKEY '' @ [CHR 0x09] @ ''= '' @ [DQ] @ '' XYZ '' @ [DQ])) = Some ''XYZ''
   \<and> extractRequestKey (Some ''REQUESTKEY : Az09_-!x'') = Some ''Az09_-''
   \<and> extractRequestKey
        (Some (''RequestKey: C RequestKey='' @ [DQ] @ ''A'' @ [DQ] @
               '' <RequestKey>B</RequestKey>'')) = Some ''B''
   \<and> extractRequestKey (Some (''RequestKey: C RequestKey='' @ [DQ] @ ''A'' @ [DQ])) = Some ''A''
   \<and> extractRequestKey (Some ''Request Key: none'') = None"
proof -
  note e = extractTagText_plain [OF assms, of engine xml]
  have 0: "\<exists>r. extractTagText engine xml tagName = Inr r"
    unfolding e by blast
  have 1: "(extractTagText engine xml tagName = Inr None) =
      (\<nexists>pre inner. tagMatch tagName xml pre inner)"
    unfolding e using specTagText_None_iff [of xml tagName] by simp
  have 2: "\<forall>inner. extractTagText engine xml tagName = Inr (Some inner) \<longrightarrow>
        (\<exists>pre. tagMatch tagName xml pre inner \<and>
           (\<forall>pre' inner'. tagMatch tagName xml pre' inner' \<longrightarrow>
              length pre < length pre' \<or>
              (length pre = length pre' \<and> length inner \<le> length inner')))"
    unfolding e using specTagText_first [of xml tagName] by simp
  have 3: "text \<noteq> [] \<longrightarrow>
        extractRequestKey (Some text) =
          (case firstMatch keyElementAt text of
             Some g \<Rightarrow> Some (trim g)
           | None \<Rightarrow>
               (case firstMatch keyAttributeAt text of
                  Some g \<Rightarrow> Some (trim g)
                | None \<Rightarrow>
                    (case firstMatch keyColonAt text of
                       Some g \<Rightarrow> Some (trim g)
                     | None \<Rightarrow> None)))"
    using extractRequestKey_order by blast
  have 4: "extractRequestKey None = None" "extractRequestKey (Some []) = None" by simp_all
  note parts = 0 1 2 firstMatch_Some_iff [of m s r] firstMatch_None_iff [of m s]
      keyElementAt_iff [of s k] keyAttributeAt_iff [of s k] keyColonAt_iff [of s k]
      4 3 example_tag example_element example_attribute example_mixed example_later
      example_absent example_element_case example_attribute_blanks example_colon
      example_order example_order_attribute example_no_key
  show ?thesis
    by (intro conjI) (rule parts)+
qed

theorem extraction_two_stage_witness:
  "plainTag ''FooResult''
   \<and> extractTagText sampleEngine
       ''<FooResult>...<RequestKey>ABC123</RequestKey>...</FooResult>'' ''FooResult'' =
       Inr (Some ''...<RequestKey>ABC123</RequestKey>...'')
   \<and> (\<exists>pre. tagMatch ''FooResult''
          ''<FooResult>...<RequestKey>ABC123</RequestKey>...</FooResult>'' pre
          ''...<RequestKey>ABC123</RequestKey>...'')
   \<and> extractRequestKey (Some ''...<RequestKey>ABC123</RequestKey>...'') = Some ''ABC123''"
proof -
  have p: "plainTag ''FooResult''" by (simp add: plainTag_def patternSyntax_def)
  note first = extraction_two_stage [OF p, THEN conjunct2, THEN conjunct2, THEN conjunct1,
      rule_format,
      of sampleEngine "''<FooResult>...<RequestKey>ABC123</RequestKey>...</FooResult>''"
         "''...<RequestKey>ABC123</RequestKey>...''"]
  have t: "\<exists>pre. tagMatch ''FooResult''
          ''<FooResult>...<RequestKey>ABC123</RequestKey>...</FooResult>'' pre
          ''...<RequestKey>ABC123</RequestKey>...''"
    using first [OF example_tag] by blast
  note parts = p example_tag [of sampleEngine] t example_element
  show ?thesis
    by (intro conjI) (rule parts)+
qed

section \<open>The reference of a successful answer\<close>

lemma trim_trim: "trim (trim s) = trim s"
proof -
  define u where "u = dropWhile isSpace s"
  define w where "w = dropWhile isSpace (rev u)"
  have "suffix w (rev u)" unfolding w_def by (rule suffix_dropWhile)
  then have p: "prefix (rev w) u" by (metis suffix_to_prefix rev_rev_ident)
  have "dropWhile isSpace (rev w) = rev w"
  proof (cases "rev w = []")
    case True
    then show ?thesis by simp
  next
    case False
    then have "u \<noteq> []" using p by auto
    then have "\<not> isSpace (hd u)" unfolding u_def by (rule hd_dropWhile)
    moreover have "hd (rev w) = hd u" using p False by (auto simp: prefix_def)
    ultimately show ?thesis using False by (simp add: dropWhile_eq_self_iff)
  qed
  moreover have "dropWhile isSpace w = w" unfolding w_def by (rule dropWhile_idem)
  ultimately show ?thesis by (simp add: trim_def u_def [symmetric] w_def [symmetric])
qed

lemma tryPatterns_trimmed: "tryPatterns ps s = Some k \<Longrightarrow> trim k = k"
  by (induction ps) (auto simp: trim_trim split: option.splits if_splits)

lemma extractRequestKey_trimmed: "extractRequestKey r = Some k \<Longrightarrow> trim k = k"
  by (cases r) (auto dest: tryPatterns_trimmed split: if_splits)

text \<open>
  A 200 answer comes from the success branch only: the call was made and answered with a
  status in 200..299, and neither the method name nor the tag pattern threw.
\<close>

lemma mieHandler_200:
  assumes "mieHandler engine env files clk fetch body = (calls, Reply 200 b)"
  shows "\<exists>ob st respText. miePrepare env files clk body = Inr ob \<and> calls = [ob] \<and>
     fetch ob = Responded st respText \<and> respOk st \<and>
     Reply 200 b = mieFinish engine (methodName (destructure body)) ob (Responded st respText)"
proof (cases "miePrepare env files clk body")
  case (Inl r)
  then have "r = Reply 200 b" using assms by (simp add: mieHandler_def)
  then show ?thesis using Inl
    by (auto simp: miePrepare_def Let_def split: if_splits sum.splits)
next
  case (Inr ob)
  then have c: "calls = [ob]"
    and r: "mieFinish engine (methodName (destructure body)) ob (fetch ob) = Reply 200 b"
    using assms by (simp_all add: mieHandler_def)
  show ?thesis
  proof (cases "fetch ob")
    case (FetchThrows e)
    then show ?thesis using r by (simp add: mieFinish_def)
  next
    case (Responded st respText)
    then have "respOk st" using r by (auto simp: mieFinish_def split: if_splits)
    then show ?thesis using Inr c r Responded by auto
  qed
qed

text \<open>
  C9. In every 200 answer of the handler the field \<open>reference\<close> equals the field
  \<open>requestKey\<close>: both are the non-empty trimmed key extracted from the vendor response, or
  both are \<open>null\<close> when the extraction fails or gives the empty string. The extraction is the
  one the code runs for the tag \<open>method + 'Result'\<close>, pattern syntax in the method name
  included.
\<close>

theorem mie_reference_equals_requestKey:
  assumes "mieHandler engine env files clk fetch body = (calls, Reply 200 b)"
  shows "optProp b ''reference'' = optProp b ''requestKey''
    \<and> (\<exists>ob st respText m resultText.
          calls = [ob] \<and> fetch ob = Responded st respText \<and>
          toStr (methodName (destructure body)) = Inr m \<and>
          extractTagText engine respText (m @ ''Result'') = Inr resultText \<and>
          optProp b ''requestKey'' =
            (case extractRequestKey resultText of
               None \<Rightarrow> Null
             | Some k \<Rightarrow> if k = [] then Null else JStr k))
    \<and> (\<forall>k. optProp b ''requestKey'' = JStr k \<longrightarrow> k \<noteq> [] \<and> trim k = k)"
proof -
  obtain ob st respText where ob: "calls = [ob]" "fetch ob = Responded st respText" "respOk st"
    and b: "Reply 200 b = mieFinish engine (methodName (destructure body)) ob (Responded st respText)"
    using mieHandler_200 [OF assms] by blast
  obtain m where m: "toStr (methodName (destructure body)) = Inr m"
    using b ob(3) by (auto simp: mieFinish_def split: sum.splits)
  obtain resultText where t: "extractTagText engine respText (m @ ''Result'') = Inr resultText"
    using b ob(3) m by (auto simp: mieFinish_def split: sum.splits)
  let ?key = "extractRequestKey resultText"
  have k: "optProp b ''requestKey'' = orElse (strOrNull ?key) Null"
    and r: "optProp b ''reference'' = orElse (strOrNull ?key) Null"
    using b ob(3) m t by (simp_all add: mieFinish_def Let_def optProp_def)
  have v: "orElse (strOrNull ?key) Null =
      (case ?key of None \<Rightarrow> Null | Some k \<Rightarrow> if k = [] then Null else JStr k)"
    by (simp add: orElse_def strOrNull_def split: option.splits)
  have tr: "optProp b ''requestKey'' = JStr k \<Longrightarrow> k \<noteq> [] \<and> trim k = k" for k
    unfolding k v using extractRequestKey_trimmed [of resultText]
    by (auto split: option.splits if_splits)
  show ?thesis using k r v tr ob m t by auto
qed

lemma plainTag_sample: "plainTag ''ksoPutRequestResult''"
  by (simp add: plainTag_def patternSyntax_def)

lemma spec_sample_tag:
  "specTagText sampleResponse ''ksoPutRequestResult'' = Some ''<RequestKey> ABC123 </RequestKey>''"
  by code_simp

lemma extract_sample_tag:
  "extractTagText engine sampleResponse ''ksoPutRequestResult'' =
     Inr (Some ''<RequestKey> ABC123 </RequestKey>'')"
  unfolding extractTagText_plain [OF plainTag_sample] spec_sample_tag ..

lemma extract_sample_key:
  "extractRequestKey (Some ''<RequestKey> ABC123 </RequestKey>'') = Some ''ABC123''"
  by code_simp

theorem mie_reference_equals_requestKey_witness:
  "mieHandler sampleEngine Map.empty [] sampleClock (sampleFetch 200 sampleResponse) sampleBody =
     ([sampleOutbound],
      Reply 200 (JObj [(''ok'', JBool True),
                       (''method'', JStr ''ksoPutRequest''),
                       (''soapAction'', JStr ''http://www.kroll.co.za/ksoPutRequest''),
                       (''requestKey'', JStr ''ABC123''),
                       (''reference'', JStr ''ABC123''),
                       (''result'', JStr ''<RequestKey> ABC123 </RequestKey>''),
                       (''rawSoapResponse'', JStr sampleResponse)]))
   \<and> optProp (JObj [(''ok'', JBool True),
                       (''method'', JStr ''ksoPutRequest''),
                       (''soapAction'', JStr ''http://www.kroll.co.za/ksoPutRequest''),
                       (''requestKey'', JStr ''ABC123''),
                       (''reference'', JStr ''ABC123''),
                       (''result'', JStr ''<RequestKey> ABC123 </RequestKey>''),
                       (''rawSoapResponse'', JStr sampleResponse)]) ''reference'' = JStr ''ABC123''"
proof -
  have e: "mieHandler sampleEngine Map.empty [] sampleClock (sampleFetch 200 sampleResponse) sampleBody =
     ([sampleOutbound],
      Reply 200 (JObj [(''ok'', JBool True),
                       (''method'', JStr ''ksoPutRequest''),
                       (''soapAction'', JStr ''http://www.kroll.co.za/ksoPutRequest''),
                       (''requestKey'', JStr ''ABC123''),
                       (''reference'', JStr ''ABC123''),
                       (''result'', JStr ''<RequestKey> ABC123 </RequestKey>''),
                       (''rawSoapResponse'', JStr sampleResponse)]))"
    using extract_sample_tag [of sampleEngine] extract_sample_key
    by (simp add: mieHandler_def miePrepare_sample mieFinish_def sampleFetch_def respOk_def
        destructure_sampleBody strOrNull_def orElse_def sampleOutbound_def soapAction_def
        toStr_def Let_def)
  from mie_reference_equals_requestKey [OF e] e show ?thesis
    by (simp add: optProp_def)
qed

text \<open>
  Method names with pattern syntax: for the method \<open>a.b\<close> the \<open>.\<close> of the tag \<open>a.bResult\<close>
  matches the \<open>X\<close> of the answer and the 200 reply carries the key \<open>K1\<close> in both fields; for
  the method \<open>kso(\<close> the pattern is not well formed and the \<open>catch\<close> block answers.
\<close>

lemma extract_wildcard_tag:
  "extractTagText engine ''<aXbResult><RequestKey>K1</RequestKey></aXbResult>'' ''a.bResult'' =
     Inr (Some ''<RequestKey>K1</RequestKey>'')"
proof -
  have d: "dottedTag ''a.bResult''"
    by (simp add: dottedTag_def patternSyntax_def)
  have m: "firstMatch (matchTagAt ''a.bResult'')
             ''<aXbResult><RequestKey>K1</RequestKey></aXbResult>'' =
           Some ''<RequestKey>K1</RequestKey>''"
    by code_simp
  have x: "''<aXbResult><RequestKey>K1</RequestKey></aXbResult>'' \<noteq> []"
    by simp
  show ?thesis
    unfolding extractTagText_dotted [OF d x] m ..
qed

lemma mieFinish_wildcard_method:
  "mieFinish engine (JStr ''a.b'') ob
     (Responded 200 ''<aXbResult><RequestKey>K1</RequestKey></aXbResult>'') =
   Reply 200 (JObj [(''ok'', JBool True),
                    (''method'', JStr ''a.b''),
                    (''soapAction'', JStr (obAction ob)),
                    (''requestKey'', JStr ''K1''),
                    (''reference'', JStr ''K1''),
                    (''result'', JStr ''<RequestKey>K1</RequestKey>''),
                    (''rawSoapResponse'', JStr ''<aXbResult><RequestKey>K1</RequestKey></aXbResult>'')])"
proof -
  have k: "extractRequestKey (Some ''<RequestKey>K1</RequestKey>'') = Some ''K1''"
    by code_simp
  show ?thesis
    using extract_wildcard_tag [of engine] k
    by (simp add: mieFinish_def respOk_def toStr_def strOrNull_def orElse_def Let_def)
qed

lemma mieFinish_unclosed_method:
  "mieFinish engine (JStr ''kso('') ob (Responded 200 ''<kso(Result>K1</kso(Result>'') =
     Caught SyntaxError"
proof -
  have u: "unclosedGroup ''kso(Result''"
    by (simp add: unclosedGroup_def)
  show ?thesis
    using extractTagText_unclosed [OF u, of "''<kso(Result>K1</kso(Result>''" engine]
    by (simp add: mieFinish_def respOk_def toStr_def)
qed

section \<open>Independence of the identity data\<close>

lemma soapEnvelope_no_argument:
  "\<not> hasArgument m \<Longrightarrow> soapEnvelope m logon arg = soapEnvelope m logon arg'"
  by (simp add: soapEnvelope_def split: sum.splits)

text \<open>
  C10. For a method name outside the allow-list the outbound call does not depend on the
  identity data: two requests that reach the call and agree on method, \<open>soapUrl\<close>, username,
  password, source and \<open>aLogonXml\<close>, under the same environment and secrets file, send the
  same envelope to the same address, whatever their \<open>payload\<close>, \<open>clientKey\<close>, \<open>agentKey\<close>
  and \<open>aArgument\<close>, and whatever the clock shows.
\<close>

theorem mie_envelope_ignores_identity:
  assumes "miePrepare env files clk1 body1 = Inr ob1"
    and "miePrepare env files clk2 body2 = Inr ob2"
    and "methodName (destructure body1) = methodName (destructure body2)"
    and "soapUrl (destructure body1) = soapUrl (destructure body2)"
    and "username (destructure body1) = username (destructure body2)"
    and "passwordFromBody (destructure body1) = passwordFromBody (destructure body2)"
    and "source (destructure body1) = source (destructure body2)"
    and "aLogonXmlOverride (destructure body1) = aLogonXmlOverride (destructure body2)"
    and "toLowerCase (render (methodName (destructure body1)))
          \<notin> {''ksoputrequest'', ''ksoputbranch'', ''ksoputrequestredirect''}"
  shows "obBody ob1 = obBody ob2 \<and> ob1 = ob2"
proof -
  let ?pw = "resolvePassword env (loadLocalSecrets files) (passwordFromBody (destructure body1))"
  have l: "aLogonXml (destructure body1) pw = aLogonXml (destructure body2) pw" for pw
    using assms(5,7,8) by (simp add: aLogonXml_def)
  obtain logon1 arg1 m1 envelope1 where 1:
    "aLogonXml (destructure body1) ?pw = Inr logon1"
    "toStr (methodName (destructure body1)) = Inr m1"
    "soapEnvelope m1 logon1 arg1 = Inr envelope1"
    "ob1 = \<lparr> obUrl = soapUrl (destructure body1), obAction = soapAction m1, obBody = envelope1 \<rparr>"
    using assms(1) unfolding miePrepare_Inr by blast
  obtain logon2 arg2 m2 envelope2 where 2:
    "aLogonXml (destructure body2) ?pw = Inr logon2"
    "toStr (methodName (destructure body2)) = Inr m2"
    "soapEnvelope m2 logon2 arg2 = Inr envelope2"
    "ob2 = \<lparr> obUrl = soapUrl (destructure body2), obAction = soapAction m2, obBody = envelope2 \<rparr>"
    using assms(2) unfolding miePrepare_Inr assms(6) [symmetric] by blast
  have m: "m1 = render (methodName (destructure body1))" "m2 = m1"
    using 1(2) 2(2) assms(3) by (simp_all add: toStr_Inr)
  have h: "\<not> hasArgument m1"
    using assms(9) m(1) by (simp add: hasArgument_def allowList_def)
  have g: "logon2 = logon1"
    using 1(1) 2(1) l by simp
  have "envelope1 = envelope2"
    using 1(3) 2(3) soapEnvelope_no_argument [OF h, of logon1 arg1 arg2] m(2) g by simp
  then show ?thesis
    using 1(4) 2(4) m(2) assms(4) by simp
qed

lemma destructure_otherBodyA:
  "destructure otherBodyA =
     \<lparr> methodName = JStr ''ksoGetStatus'', soapUrl = JStr ''https://vendor.example/soap'',
       username = JStr ''user'', passwordFromBody = JStr ''pw'', clientKey = JStr ''C1'',
       agentKey = JStr ''A1'', source = Undefined,
       payload = JObj [(''firstName'', JStr ''Thandi''), (''idNumber'', JStr ''8001015009087'')],
       aLogonXmlOverride = Undefined, aArgumentOverride = Undefined \<rparr>"
  by (simp add: destructure_def otherBodyA_def orElse_def optProp_def)

lemma destructure_otherBodyB:
  "destructure otherBodyB =
     \<lparr> methodName = JStr ''ksoGetStatus'', soapUrl = JStr ''https://vendor.example/soap'',
       username = JStr ''user'', passwordFromBody = JStr ''pw'', clientKey = JStr ''C2'',
       agentKey = Undefined, source = Undefined,
       payload = JObj [(''firstName'', JStr ''Sipho'')],
       aLogonXmlOverride = Undefined, aArgumentOverride = JStr ''<xml>other</xml>'' \<rparr>"
  by (simp add: destructure_def otherBodyB_def orElse_def optProp_def)

lemma aArgument_otherBodyA: "\<exists>arg. aArgument sampleClock (destructure otherBodyA) = Inr arg"
  by (simp add: destructure_otherBodyA aArgument_def argumentTemplate_def argumentValues_def
      template_def coalesce_def orElse_def Let_def optProp_def)

lemma aArgument_otherBodyB: "\<exists>arg. aArgument sampleClock (destructure otherBodyB) = Inr arg"
  by (simp add: destructure_otherBodyB aArgument_def Let_def optProp_def)

lemma hasArgument_ksoGetStatus: "\<not> hasArgument ''ksoGetStatus''"
  by (simp add: hasArgument_def allowList_def toLowerCase_def lowerUnit_def upperLetters_def
      lowerLetters_def)

lemma miePrepare_otherBodyA: "miePrepare Map.empty [] sampleClock otherBodyA = Inr otherOutbound"
proof -
  obtain a where a: "aArgument sampleClock (destructure otherBodyA) = Inr a"
    using aArgument_otherBodyA by blast
  show ?thesis
    unfolding miePrepare_Inr a
    by (simp add: destructure_otherBodyA otherOutbound_def resolvePassword_def orElse_def
        aLogonXml_def logonTemplate_def template_def coalesce_def toStr_def soapEnvelope_Inr
        hasArgument_ksoGetStatus sampleLogon_def)
qed

lemma miePrepare_otherBodyB: "miePrepare Map.empty [] sampleClock otherBodyB = Inr otherOutbound"
proof -
  obtain b where b: "aArgument sampleClock (destructure otherBodyB) = Inr b"
    using aArgument_otherBodyB by blast
  show ?thesis
    unfolding miePrepare_Inr b
    by (simp add: destructure_otherBodyB otherOutbound_def resolvePassword_def orElse_def
        aLogonXml_def logonTemplate_def template_def coalesce_def toStr_def soapEnvelope_Inr
        hasArgument_ksoGetStatus sampleLogon_def)
qed

theorem mie_envelope_ignores_identity_witness:
  "miePrepare Map.empty [] sampleClock otherBodyA = Inr otherOutbound
   \<and> miePrepare Map.empty [] sampleClock otherBodyB = Inr otherOutbound
   \<and> toLowerCase ''ksoGetStatus'' \<notin> {''ksoputrequest'', ''ksoputbranch'', ''ksoputrequestredirect''}
   \<and> payload (destructure otherBodyA) \<noteq> payload (destructure otherBodyB)
   \<and> clientKey (destructure otherBodyA) \<noteq> clientKey (destructure otherBodyB)
   \<and> agentKey (destructure otherBodyA) \<noteq> agentKey (destructure otherBodyB)
   \<and> aArgumentOverride (destructure otherBodyA) \<noteq> aArgumentOverride (destructure otherBodyB)"
proof -
  have l: "toLowerCase ''ksoGetStatus'' = ''ksogetstatus''"
    by (simp add: toLowerCase_def lowerUnit_def upperLetters_def lowerLetters_def)
  have "obBody otherOutbound = obBody otherOutbound \<and> otherOutbound = otherOutbound"
    by (rule mie_envelope_ignores_identity [OF miePrepare_otherBodyA miePrepare_otherBodyB])
      (simp_all add: destructure_otherBodyA destructure_otherBodyB l)
  then show ?thesis
    using miePrepare_otherBodyA miePrepare_otherBodyB l
    by (simp add: destructure_otherBodyA destructure_otherBodyB)
qed

section \<open>Credentials\<close>

lemma resolvePassword_precedence:
  "resolvePassword env secrets fromBody =
     (if truthy fromBody then fromBody
      else if truthy (envVar env ''MIE_PASSWORD'') then envVar env ''MIE_PASSWORD''
      else if truthy (optProp secrets ''MIE_PASSWORD'') then optProp secrets ''MIE_PASSWORD''
      else if truthy (optProp secrets ''mie_password'') then optProp secrets ''mie_password''
      else Null)"
  by (simp add: resolvePassword_def orElse_def)

lemma envVar_other: "k \<noteq> k' \<Longrightarrow> envVar (env(k' \<mapsto> u)) k = envVar env k"
  by (simp add: envVar_def)

lemma resolvePassword_env_username:
  "resolvePassword (env(''MIE_USERNAME'' \<mapsto> u)) secrets fromBody =
     resolvePassword env secrets fromBody"
  by (simp add: resolvePassword_def envVar_def)

lemma miePrepare_env_username:
  "miePrepare (env(''MIE_USERNAME'' \<mapsto> u)) files clk body = miePrepare env files clk body"
  unfolding miePrepare_def resolvePassword_env_username ..

lemma destructure_envUserBody:
  "destructure envUserBody =
     \<lparr> methodName = JStr ''ksoGetStatus'', soapUrl = JStr ''https://vendor.example/soap'',
       username = Undefined, passwordFromBody = JStr ''pw'', clientKey = Undefined,
       agentKey = Undefined, source = Undefined, payload = JObj [],
       aLogonXmlOverride = Undefined, aArgumentOverride = Undefined \<rparr>"
  by (simp add: destructure_def envUserBody_def orElse_def optProp_def)

text \<open>
  C4. The password of the outbound call is the first truthy of the request value, the
  environment variable and the two keys of the secrets file
  (\<open>resolvePassword_precedence\<close>). The user name is not resolved that way: a request
  without a user name, run with \<open>MIE_USERNAME\<close> set to \<open>envuser\<close>, sends a logon fragment
  with an empty \<open>UserName\<close>.
\<close>

theorem mie_username_env_ignored:
  "envVar [''MIE_USERNAME'' \<mapsto> ''envuser''] ''MIE_USERNAME'' = JStr ''envuser''
   \<and> username (destructure envUserBody) = Undefined
   \<and> miePrepare [''MIE_USERNAME'' \<mapsto> ''envuser''] [] clk envUserBody =
       Inr \<lparr> obUrl = JStr ''https://vendor.example/soap'',
             obAction = soapAction ''ksoGetStatus'',
             obBody = envelopeText ''ksoGetStatus''
               (cdataText ''<xml><Token><UserName></UserName><Password>pw</Password><Source></Source></Token></xml>'')
               [] \<rparr>"
proof -
  obtain a where a: "aArgument clk (destructure envUserBody) = Inr a"
    by (simp add: destructure_envUserBody aArgument_def argumentTemplate_def argumentValues_def
      template_def coalesce_def orElse_def Let_def optProp_def)
  have "miePrepare [''MIE_USERNAME'' \<mapsto> ''envuser''] [] clk envUserBody =
       Inr \<lparr> obUrl = JStr ''https://vendor.example/soap'',
             obAction = soapAction ''ksoGetStatus'',
             obBody = envelopeText ''ksoGetStatus''
               (cdataText ''<xml><Token><UserName></UserName><Password>pw</Password><Source></Source></Token></xml>'')
               [] \<rparr>"
    unfolding miePrepare_Inr a
    by (simp add: destructure_envUserBody resolvePassword_def orElse_def
        aLogonXml_def logonTemplate_def template_def coalesce_def toStr_def soapEnvelope_Inr
        hasArgument_ksoGetStatus)
  then show ?thesis by (simp add: envVar_def destructure_envUserBody)
qed

section \<open>Properties of the SMS send handler\<close>

text \<open>
  The only exception of the construction of the messages is a \<open>TypeError\<close>. A batch that
  is built holds one message per recipient, with its normalized number, and was built
  with \<open>options\<close> other than \<open>null\<close>.
\<close>

lemma formatSmsPortalNumber_Inl: "formatSmsPortalNumber v = Inl e \<Longrightarrow> e = TypeError"
  by (auto simp: formatSmsPortalNumber_def toStr_def split: if_splits)

lemma smsMessage_Inl: "smsMessage message options r = Inl e \<Longrightarrow> e = TypeError"
  by (auto simp: smsMessage_def toStr_def dest: formatSmsPortalNumber_Inl
      split: sum.splits option.splits if_splits)

lemma smsMessages_Inl: "smsMessages message options rs = Inl e \<Longrightarrow> e = TypeError"
  by (induction rs) (auto dest: smsMessage_Inl split: sum.splits)

lemma smsMessages_built:
  assumes "smsMessages message options rs = Inr built"
  shows "map (\<lambda>r. formatSmsPortalNumber (recipientRaw r)) rs = map Inr (map fst built)
    \<and> (\<forall>m \<in> set built. optProp (snd m) ''destination'' = JStr (fst m))
    \<and> (rs \<noteq> [] \<longrightarrow> options \<noteq> Null)"
  using assms
proof (induction rs arbitrary: built)
  case Nil
  then show ?case by simp
next
  case (Cons r rs)
  then show ?case
    by (auto simp: smsMessage_def Let_def optProp_def split: sum.splits option.splits)
qed

lemma smsMessages_total:
  assumes "options \<noteq> Null" "options \<noteq> Undefined" "toStr message = Inr text"
    and "\<forall>r \<in> set rs. \<exists>d. formatSmsPortalNumber (recipientRaw r) = Inr d"
  shows "\<exists>built. smsMessages message options rs = Inr built"
proof -
  obtain v where v: "getProp options ''scheduledFor'' = Some v"
    using assms(1,2) by (cases options) auto
  show ?thesis
    using assms(4) by (induction rs) (auto simp: smsMessage_def Let_def v assms(3))
qed

lemma forwarded_destinations:
  assumes "map fst built = ds" "\<forall>m \<in> set built. optProp (snd m) ''destination'' = JStr (fst m)"
  shows "map (\<lambda>m. optProp m ''destination'') (map snd (filter (\<lambda>m. fst m \<noteq> []) built)) =
     map JStr (filter (\<lambda>d. d \<noteq> []) ds)"
  using assms by (induction built arbitrary: ds) auto

text \<open>
  C8, as stated, fails on three requests, each answered by the \<open>catch\<close> block (status 500)
  and not with 400: \<open>options\<close> is \<open>null\<close> and the only recipient normalizes to the empty
  string; the message is an object with an own property \<open>toString\<close> that is not a function
  and \<open>recipients\<close> is missing; the phone of the only recipient is such an object.
\<close>

theorem sms_null_options_counterexample:
  "formatSmsPortalNumber (recipientRaw (JStr ''n/a'')) = Inr []
   \<and> smsSend (JObj [(''message'', JStr ''hi''),
                     (''recipients'', JArr [JStr ''n/a'']),
                     (''options'', Null)]) = SmsCaught TypeError
   \<and> smsSend (JObj [(''message'', JObj [(''toString'', JNum True ''1'')])]) = SmsCaught TypeError
   \<and> smsSend (JObj [(''message'', JStr ''hi''),
                     (''recipients'', JArr [JObj [(''phone'', JObj [(''toString'', JNum True ''1'')])]])]) =
       SmsCaught TypeError"
  by (simp add: smsSend_def orElse_def optProp_def trim_def isSpace_def smsMessage_def
      recipientRaw_def formatSmsPortalNumber_def isDigit_def toStr_def Let_def)

text \<open>
  C8, amended. The handler answers 400 with \<open>success: false\<close> and an error when the message
  is missing or converts to a text that is empty after trimming; a truthy message that
  \<open>String\<close> cannot convert is answered by the \<open>catch\<close> block. For a message with a non-blank
  text the handler answers 400 when \<open>recipients\<close> is missing, not an array or empty.
  Otherwise (\<open>sendable\<close>): when \<open>options\<close> is \<open>null\<close> or the number of some recipient cannot
  be converted, the \<open>catch\<close> block answers and nothing is forwarded; when \<open>options\<close> is not
  \<open>null\<close> and every recipient normalizes to the empty string, the handler answers 400 and
  forwards nothing; when \<open>options\<close> is not \<open>null\<close>, every number converts and one of them is
  not empty, the batch is forwarded. The messages of a forwarded batch are those of the
  recipients whose number normalizes to a non-empty string, in order. A single recipient
  with the phone \<open>0821234567\<close> gives one outbound message with the destination
  \<open>27821234567\<close>.
\<close>

theorem sms_send_validation:
  fixes body :: jsval
  defines "b \<equiv> orElse body (JObj [])"
  defines "message \<equiv> optProp b ''message''"
  defines "recipients \<equiv> optProp b ''recipients''"
  defines "options \<equiv> (if optProp b ''options'' = Undefined then JObj [] else optProp b ''options'')"
  defines "numbers \<equiv> map (\<lambda>r. formatSmsPortalNumber (recipientRaw r)) (arrayOrEmpty recipients)"
  defines "sendable \<equiv> truthy message \<and> (\<exists>text. toStr message = Inr text \<and> trim text \<noteq> []) \<and>
                       isArray recipients \<and> arrayOrEmpty recipients \<noteq> []"
  shows "(\<not> truthy message \<or> (\<exists>text. toStr message = Inr text \<and> trim text = []) \<longrightarrow>
      smsSend body =
        SmsReply 400 (JObj [(''success'', JBool False), (''error'', JStr ''Message cannot be empty'')]))
   \<and> (truthy message \<and> (\<exists>e. toStr message = Inl e) \<longrightarrow> smsSend body = SmsCaught TypeError)
   \<and> (truthy message \<and> (\<exists>text. toStr message = Inr text \<and> trim text \<noteq> []) \<and>
        (\<not> isArray recipients \<or> arrayOrEmpty recipients = []) \<longrightarrow>
      smsSend body =
        SmsReply 400 (JObj [(''success'', JBool False), (''error'', JStr ''No recipients specified'')]))
   \<and> (sendable \<and> (options = Null \<or> (\<exists>n \<in> set numbers. \<exists>e. n = Inl e)) \<longrightarrow>
        smsSend body = SmsCaught TypeError)
   \<and> (sendable \<and> options \<noteq> Null \<and> (\<forall>n \<in> set numbers. n = Inr []) \<longrightarrow>
      smsSend body =
        SmsReply 400 (JObj [(''success'', JBool False),
                            (''error'', JStr ''No valid recipient numbers found'')]))
   \<and> (sendable \<and> options \<noteq> Null \<and> (\<forall>n \<in> set numbers. \<exists>d. n = Inr d) \<and>
        (\<exists>n \<in> set numbers. n \<noteq> Inr []) \<longrightarrow>
      (\<exists>p. smsSend body = SmsForward p))
   \<and> (\<forall>p. smsSend body = SmsForward p \<longrightarrow>
        (\<exists>msgs ds. optProp p ''messages'' = JArr msgs \<and> msgs \<noteq> [] \<and>
           numbers = map Inr ds \<and>
           map (\<lambda>m. optProp m ''destination'') msgs = map JStr (filter (\<lambda>d. d \<noteq> []) ds)))
   \<and> smsSend (JObj [(''message'', JStr ''hi''),
                     (''recipients'', JArr [JObj [(''phone'', JStr ''0821234567'')]])]) =
       SmsForward (JObj [(''messages'', JArr [JObj [(''content'', JStr ''hi''),
                                                   (''destination'', JStr ''27821234567'')]]),
                         (''testMode'', JBool False)])"
proof -
  note unfold = smsSend_def Let_def b_def [symmetric] message_def [symmetric]
        recipients_def [symmetric] options_def [symmetric]
  have o: "options \<noteq> Undefined" by (simp add: options_def)
  have A: "\<not> truthy message \<or> (\<exists>text. toStr message = Inr text \<and> trim text = []) \<Longrightarrow>
      smsSend body =
        SmsReply 400 (JObj [(''success'', JBool False), (''error'', JStr ''Message cannot be empty'')])"
    unfolding unfold by auto
  have A': "smsSend body = SmsCaught TypeError" if "truthy message" "toStr message = Inl e" for e
  proof -
    have "toStr message = Inl TypeError" using that(2) by (simp add: toStr_Inl)
    then show ?thesis using that(1) unfolding unfold by simp
  qed
  have B: "truthy message \<and> (\<exists>text. toStr message = Inr text \<and> trim text \<noteq> []) \<and>
        (\<not> isArray recipients \<or> arrayOrEmpty recipients = []) \<Longrightarrow>
      smsSend body =
        SmsReply 400 (JObj [(''success'', JBool False), (''error'', JStr ''No recipients specified'')])"
    unfolding unfold by auto
  have S: "smsSend body =
      (case smsMessages message options (arrayOrEmpty recipients) of
         Inl e \<Rightarrow> SmsCaught e
       | Inr built \<Rightarrow>
           if map snd (filter (\<lambda>m. fst m \<noteq> []) built) = [] then
             SmsReply 400 (JObj [(''success'', JBool False),
                                 (''error'', JStr ''No valid recipient numbers found'')])
           else
             SmsForward
               (JObj ([(''messages'', JArr (map snd (filter (\<lambda>m. fst m \<noteq> []) built))),
                       (''testMode'', JBool (truthy (optProp options ''testMode'')))] @
                      (if truthy (optProp options ''senderId'')
                       then [(''senderId'', optProp options ''senderId'')] else []))))"
    if sendable
    using that unfolding sendable_def unfold by auto
  have T: "smsSend body = SmsCaught TypeError"
    if s: sendable and t: "options = Null \<or> (\<exists>n \<in> set numbers. \<exists>e. n = Inl e)"
  proof (cases "smsMessages message options (arrayOrEmpty recipients)")
    case (Inl e)
    then show ?thesis using S [OF s] smsMessages_Inl [OF Inl] by simp
  next
    case (Inr built)
    have "arrayOrEmpty recipients \<noteq> []" using s by (simp add: sendable_def)
    then have "options \<noteq> Null" "numbers = map Inr (map fst built)"
      using smsMessages_built [OF Inr] by (simp_all add: numbers_def)
    then have False using t by auto
    then show ?thesis ..
  qed
  have built: "\<exists>built. smsMessages message options (arrayOrEmpty recipients) = Inr built"
    if s: sendable and n: "options \<noteq> Null" and d: "\<forall>n \<in> set numbers. \<exists>d. n = Inr d"
  proof -
    obtain content where "toStr message = Inr content" using s by (auto simp: sendable_def)
    then show ?thesis
      using smsMessages_total [OF n o, of message content "arrayOrEmpty recipients"] d
      by (simp add: numbers_def)
  qed
  have D: "smsSend body =
        SmsReply 400 (JObj [(''success'', JBool False),
                            (''error'', JStr ''No valid recipient numbers found'')])"
    if s: sendable and n: "options \<noteq> Null" and e: "\<forall>n \<in> set numbers. n = Inr []"
  proof -
    obtain built where built: "smsMessages message options (arrayOrEmpty recipients) = Inr built"
      using built [OF s n] e by auto
    have "\<forall>m \<in> set built. fst m = []"
    proof
      fix m assume "m \<in> set built"
      then have "Inr (fst m) \<in> set (map Inr (map fst built) :: (exn + string) list)" by simp
      then have "Inr (fst m) \<in> set numbers"
        using smsMessages_built [OF built] by (simp add: numbers_def)
      then show "fst m = []" using e by auto
    qed
    then have "filter (\<lambda>m. fst m \<noteq> []) built = []" by (simp add: filter_empty_conv)
    then show ?thesis using S [OF s] built by simp
  qed
  have F: "\<exists>p. smsSend body = SmsForward p"
    if s: sendable and n: "options \<noteq> Null" and d: "\<forall>n \<in> set numbers. \<exists>d. n = Inr d"
      and e: "\<exists>n \<in> set numbers. n \<noteq> Inr []"
  proof -
    obtain built where built: "smsMessages message options (arrayOrEmpty recipients) = Inr built"
      using built [OF s n d] by auto
    have "numbers = map Inr (map fst built)"
      using smsMessages_built [OF built] by (simp add: numbers_def)
    then obtain m where "m \<in> set built" "fst m \<noteq> []"
      using e by auto
    then have "filter (\<lambda>m. fst m \<noteq> []) built \<noteq> []" by (auto simp: filter_empty_conv)
    then show ?thesis using S [OF s] built by simp
  qed
  have C: "\<exists>msgs ds. optProp p ''messages'' = JArr msgs \<and> msgs \<noteq> [] \<and>
           numbers = map Inr ds \<and>
           map (\<lambda>m. optProp m ''destination'') msgs = map JStr (filter (\<lambda>d. d \<noteq> []) ds)"
    if p: "smsSend body = SmsForward p" for p
  proof -
    obtain built where built: "smsMessages message options (arrayOrEmpty recipients) = Inr built"
      and nonempty: "map snd (filter (\<lambda>m. fst m \<noteq> []) built) \<noteq> []"
      and pm: "optProp p ''messages'' = JArr (map snd (filter (\<lambda>m. fst m \<noteq> []) built))"
      using p unfolding unfold
      by (auto simp: optProp_def split: if_splits sum.splits)
    have n: "numbers = map Inr (map fst built)"
      using smsMessages_built [OF built] by (simp add: numbers_def)
    have "map (\<lambda>m. optProp m ''destination'') (map snd (filter (\<lambda>m. fst m \<noteq> []) built)) =
        map JStr (filter (\<lambda>d. d \<noteq> []) (map fst built))"
      using smsMessages_built [OF built] by (intro forwarded_destinations) auto
    then show ?thesis using pm nonempty n by blast
  qed
  have E: "smsSend (JObj [(''message'', JStr ''hi''),
                     (''recipients'', JArr [JObj [(''phone'', JStr ''0821234567'')]])]) =
       SmsForward (JObj [(''messages'', JArr [JObj [(''content'', JStr ''hi''),
                                                   (''destination'', JStr ''27821234567'')]]),
                         (''testMode'', JBool False)])"
    by (simp add: smsSend_def orElse_def optProp_def trim_def isSpace_def smsMessage_def
      recipientRaw_def formatSmsPortalNumber_def isDigit_def toStr_def Let_def)
  have 1: "\<not> truthy message \<or> (\<exists>text. toStr message = Inr text \<and> trim text = []) \<longrightarrow>
      smsSend body =
        SmsReply 400 (JObj [(''success'', JBool False), (''error'', JStr ''Message cannot be empty'')])"
    using A by blast
  have 2: "truthy message \<and> (\<exists>e. toStr message = Inl e) \<longrightarrow> smsSend body = SmsCaught TypeError"
    using A' by blast
  have 3: "truthy message \<and> (\<exists>text. toStr message = Inr text \<and> trim text \<noteq> []) \<and>
        (\<not> isArray recipients \<or> arrayOrEmpty recipients = []) \<longrightarrow>
      smsSend body =
        SmsReply 400 (JObj [(''success'', JBool False), (''error'', JStr ''No recipients specified'')])"
    using B by blast
  have 4: "sendable \<and> (options = Null \<or> (\<exists>n \<in> set numbers. \<exists>e. n = Inl e)) \<longrightarrow>
        smsSend body = SmsCaught TypeError"
    using T by blast
  have 5: "sendable \<and> options \<noteq> Null \<and> (\<forall>n \<in> set numbers. n = Inr []) \<longrightarrow>
      smsSend body =
        SmsReply 400 (JObj [(''success'', JBool False),
                            (''error'', JStr ''No valid recipient numbers found'')])"
    using D by blast
  have 6: "sendable \<and> options \<noteq> Null \<and> (\<forall>n \<in> set numbers. \<exists>d. n = Inr d) \<and>
        (\<exists>n \<in> set numbers. n \<noteq> Inr []) \<longrightarrow>
      (\<exists>p. smsSend body = SmsForward p)"
    using F by blast
  have 7: "\<forall>p. smsSend body = SmsForward p \<longrightarrow>
        (\<exists>msgs ds. optProp p ''messages'' = JArr msgs \<and> msgs \<noteq> [] \<and>
           numbers = map Inr ds \<and>
           map (\<lambda>m. optProp m ''destination'') msgs = map JStr (filter (\<lambda>d. d \<noteq> []) ds))"
    using C by blast
  note parts = 1 2 3 4 5 6 7 E
  show ?thesis
    by (intro conjI) (rule parts)+
qed

theorem sms_send_validation_witness:
  "smsSend (JObj []) =
     SmsReply 400 (JObj [(''success'', JBool False), (''error'', JStr ''Message cannot be empty'')])
   \<and> smsSend (JObj [(''message'', JObj [(''toString'', JNum True ''1'')])]) = SmsCaught TypeError
   \<and> smsSend (JObj [(''message'', JStr ''hi''), (''recipients'', JArr [])]) =
     SmsReply 400 (JObj [(''success'', JBool False), (''error'', JStr ''No recipients specified'')])
   \<and> smsSend (JObj [(''message'', JStr ''hi''), (''recipients'', JArr [JStr ''n/a'']),
                     (''options'', Null)]) = SmsCaught TypeError
   \<and> smsSend (JObj [(''message'', JStr ''hi''), (''recipients'', JArr [JStr ''n/a''])]) =
     SmsReply 400 (JObj [(''success'', JBool False),
                         (''error'', JStr ''No valid recipient numbers found'')])
   \<and> (\<exists>p msgs. smsSend (JObj [(''message'', JStr ''hi''),
                     (''recipients'', JArr [JStr ''n/a'', JObj [(''phone'', JStr ''0821234567'')]])]) =
         SmsForward p
       \<and> optProp p ''messages'' = JArr msgs
       \<and> map (\<lambda>m. optProp m ''destination'') msgs = [JStr ''27821234567''])"
proof -
  have n: "formatSmsPortalNumber (recipientRaw (JStr ''n/a'')) = Inr []"
    by (simp add: recipientRaw_def formatSmsPortalNumber_def isDigit_def toStr_def)
  have g: "formatSmsPortalNumber (recipientRaw (JObj [(''phone'', JStr ''0821234567'')])) =
      Inr ''27821234567''"
    by (simp add: recipientRaw_def formatSmsPortalNumber_def isDigit_def toStr_def orElse_def
        optProp_def Let_def)
  have t: "trim ''hi'' = ''hi''" by (simp add: trim_def isSpace_def)
  have 1: "smsSend (JObj []) =
     SmsReply 400 (JObj [(''success'', JBool False), (''error'', JStr ''Message cannot be empty'')])"
    using sms_send_validation [of "JObj []", THEN conjunct1]
    by (simp add: orElse_def optProp_def)
  have 2: "smsSend (JObj [(''message'', JObj [(''toString'', JNum True ''1'')])]) = SmsCaught TypeError"
    using sms_send_validation [of "JObj [(''message'', JObj [(''toString'', JNum True ''1'')])]",
      THEN conjunct2, THEN conjunct1]
    by (simp add: orElse_def optProp_def toStr_def)
  have 3: "smsSend (JObj [(''message'', JStr ''hi''), (''recipients'', JArr [])]) =
     SmsReply 400 (JObj [(''success'', JBool False), (''error'', JStr ''No recipients specified'')])"
    using sms_send_validation [of "JObj [(''message'', JStr ''hi''), (''recipients'', JArr [])]",
      THEN conjunct2, THEN conjunct2, THEN conjunct1] t
    by (simp add: orElse_def optProp_def toStr_def)
  have 4: "smsSend (JObj [(''message'', JStr ''hi''), (''recipients'', JArr [JStr ''n/a'']),
                     (''options'', Null)]) = SmsCaught TypeError"
    using sms_send_validation [of "JObj [(''message'', JStr ''hi''),
        (''recipients'', JArr [JStr ''n/a'']), (''options'', Null)]",
      THEN conjunct2, THEN conjunct2, THEN conjunct2, THEN conjunct1] t
    by (simp add: orElse_def optProp_def toStr_def)
  have 5: "smsSend (JObj [(''message'', JStr ''hi''), (''recipients'', JArr [JStr ''n/a''])]) =
     SmsReply 400 (JObj [(''success'', JBool False),
                         (''error'', JStr ''No valid recipient numbers found'')])"
    using sms_send_validation [of "JObj [(''message'', JStr ''hi''),
        (''recipients'', JArr [JStr ''n/a''])]",
      THEN conjunct2, THEN conjunct2, THEN conjunct2, THEN conjunct2, THEN conjunct1] t n
    by (simp add: orElse_def optProp_def toStr_def)
  let ?two = "JObj [(''message'', JStr ''hi''),
                     (''recipients'', JArr [JStr ''n/a'', JObj [(''phone'', JStr ''0821234567'')]])]"
  have "\<exists>p. smsSend ?two = SmsForward p"
    using sms_send_validation [of ?two,
      THEN conjunct2, THEN conjunct2, THEN conjunct2, THEN conjunct2, THEN conjunct2,
      THEN conjunct1] t n g
    by (simp add: orElse_def optProp_def toStr_def)
  then obtain p where p: "smsSend ?two = SmsForward p" ..
  have "\<exists>msgs ds. optProp p ''messages'' = JArr msgs \<and> msgs \<noteq> [] \<and>
      ([Inr [], Inr ''27821234567''] :: (exn + string) list) = map Inr ds \<and>
      map (\<lambda>m. optProp m ''destination'') msgs = map JStr (filter (\<lambda>d. d \<noteq> []) ds)"
    using sms_send_validation [of ?two,
      THEN conjunct2, THEN conjunct2, THEN conjunct2, THEN conjunct2, THEN conjunct2,
      THEN conjunct2, THEN conjunct1, rule_format, OF p] n g
    by (simp add: orElse_def optProp_def)
  then obtain msgs ds where m: "optProp p ''messages'' = JArr msgs"
    and d: "([Inr [], Inr ''27821234567''] :: (exn + string) list) = map Inr ds"
    and f: "map (\<lambda>m. optProp m ''destination'') msgs = map JStr (filter (\<lambda>d. d \<noteq> []) ds)"
    by (elim exE conjE)
  have "ds = [[], ''27821234567'']"
    using d by (auto simp: map_eq_Cons_conv)
  then have k: "map (\<lambda>m. optProp m ''destination'') msgs = [JStr ''27821234567'']"
    using f by simp
  have 6: "\<exists>p msgs. smsSend ?two = SmsForward p
       \<and> optProp p ''messages'' = JArr msgs
       \<and> map (\<lambda>m. optProp m ''destination'') msgs = [JStr ''27821234567'']"
    by (rule exI [of _ p], rule exI [of _ msgs]) (intro conjI p m k)
  note parts = 1 2 3 4 5 6
  show ?thesis
    by (intro conjI) (rule parts)+
qed

end
